theory Spec2Isabelle
  imports Complex_Main "HOL-Library.Log_Nat"
begin

section \<open>Numbers of the host language\<close>

text \<open>
  The layout code computes with JavaScript numbers, which are binary64 floating-point
  numbers. A number is \<open>NaN\<close>, an infinity, or a finite value, kept as the rational it
  denotes; the two zeros are not told apart (the handler divides only by a measured
  height, which is not a negative zero).
\<close>

datatype jsnum = NaN | PosInf | NegInf | Num rat

text \<open>
  Rounding of an exact result to binary64, to nearest with ties to even: the result is
  a multiple of \<open>2 powi q\<close>, where \<open>q\<close> leaves 53 bits for a normal number and is
  \<open>-1074\<close> for a subnormal one; a result of magnitude \<open>2 ^ 1024\<close> or more overflows to
  an infinity.
\<close>

definition round_half_even :: "rat \<Rightarrow> int" where
  "round_half_even t =
     (let f = \<lfloor>t\<rfloor>; d = t - of_int f
      in if d < 1 / 2 then f else if 1 / 2 < d then f + 1 else if even f then f else f + 1)"

text \<open>The exponent \<open>e\<close> of a positive number: \<open>2 powi e \<le> x < 2 powi (e + 1)\<close>.\<close>

definition ilog2 :: "rat \<Rightarrow> int" where
  "ilog2 x =
     (case quotient_of x of
        (n, d) \<Rightarrow> let k = bitlen n - bitlen d in if 2 powi k \<le> x then k else k - 1)"

definition overflow_bound :: rat where
  "overflow_bound = 2 ^ 1024"

definition binary64 :: "rat \<Rightarrow> jsnum" where
  "binary64 x =
     (if x = 0 then Num 0
      else let q = max (ilog2 \<bar>x\<bar> - 52) (- 1074);
               y = of_int (round_half_even (x / 2 powi q)) * 2 powi q
           in if overflow_bound \<le> \<bar>y\<bar> then (if 0 < x then PosInf else NegInf) else Num y)"

text \<open>The operators \<open>+\<close>, unary and binary \<open>-\<close>, and \<open>/\<close>.\<close>

fun js_add :: "jsnum \<Rightarrow> jsnum \<Rightarrow> jsnum" where
  "js_add NaN _ = NaN"
| "js_add _ NaN = NaN"
| "js_add (Num a) (Num b) = binary64 (a + b)"
| "js_add PosInf NegInf = NaN"
| "js_add NegInf PosInf = NaN"
| "js_add PosInf _ = PosInf"
| "js_add NegInf _ = NegInf"
| "js_add _ PosInf = PosInf"
| "js_add _ NegInf = NegInf"

fun js_neg :: "jsnum \<Rightarrow> jsnum" where
  "js_neg NaN = NaN"
| "js_neg PosInf = NegInf"
| "js_neg NegInf = PosInf"
| "js_neg (Num a) = Num (- a)"

definition js_sub :: "jsnum \<Rightarrow> jsnum \<Rightarrow> jsnum" where
  "js_sub a b = js_add a (js_neg b)"

fun js_div :: "jsnum \<Rightarrow> jsnum \<Rightarrow> jsnum" where
  "js_div NaN _ = NaN"
| "js_div _ NaN = NaN"
| "js_div (Num a) (Num b) =
     (if b = 0 then (if a = 0 then NaN else if 0 < a then PosInf else NegInf)
      else binary64 (a / b))"
| "js_div (Num a) _ = Num 0"
| "js_div PosInf (Num b) = (if 0 \<le> b then PosInf else NegInf)"
| "js_div NegInf (Num b) = (if 0 \<le> b then NegInf else PosInf)"
| "js_div _ _ = NaN"

text \<open>The comparison \<open>a > b\<close> of the host language: false as soon as one side is \<open>NaN\<close>.\<close>

fun js_gt :: "jsnum \<Rightarrow> jsnum \<Rightarrow> bool" where
  "js_gt NaN _ = False"
| "js_gt _ NaN = False"
| "js_gt PosInf PosInf = False"
| "js_gt PosInf _ = True"
| "js_gt NegInf _ = False"
| "js_gt (Num a) PosInf = False"
| "js_gt (Num a) NegInf = True"
| "js_gt (Num a) (Num b) = (b < a)"


text \<open>\<open>Math.max\<close> and \<open>Math.min\<close> of two numbers: \<open>NaN\<close> if either is.\<close>

definition js_max :: "jsnum \<Rightarrow> jsnum \<Rightarrow> jsnum" where
  "js_max a b = (if a = NaN \<or> b = NaN then NaN else if js_gt b a then b else a)"

definition js_min :: "jsnum \<Rightarrow> jsnum \<Rightarrow> jsnum" where
  "js_min a b = (if a = NaN \<or> b = NaN then NaN else if js_gt a b then b else a)"

text \<open>A number that is not \<open>NaN\<close> and not below zero.\<close>

fun nonneg :: "jsnum \<Rightarrow> bool" where
  "nonneg NaN = False"
| "nonneg PosInf = True"
| "nonneg NegInf = False"
| "nonneg (Num a) = (0 \<le> a)"

section \<open>The scroll spy of MainLayout\<close>

text \<open>
  What one run of \<open>handleScroll\<close> reads from the browser: \<open>window.scrollY\<close>,
  \<open>window.innerHeight\<close>, and for each identifier the result of
  \<open>document.getElementById(id)\<close> (\<open>None\<close> for \<open>null\<close>) with the element's
  \<open>getBoundingClientRect()\<close>, of which the handler uses \<open>top\<close> and \<open>height\<close>.
  These are finite numbers. (The handler also computes a \<open>scrollPosition\<close>, which it
  never uses.)
\<close>

record rect =
  rect_top :: rat
  rect_height :: rat

record window =
  scrollY :: rat
  innerHeight :: rat
  getElementById :: "string \<Rightarrow> rect option"

definition sections :: "string list" where
  "sections = [''hero'', ''experience'', ''projects'', ''education'', ''skills'', ''contact'']"

definition visibleHeight :: "window \<Rightarrow> rect \<Rightarrow> jsnum" where
  "visibleHeight w r =
     (let elementTop = js_add (Num (rect_top r)) (Num (scrollY w));
          elementBottom = js_add elementTop (Num (rect_height r));
          visibleTop = js_max elementTop (Num (scrollY w));
          visibleBottom = js_min elementBottom (js_add (Num (scrollY w)) (Num (innerHeight w)))
      in js_max (Num 0) (js_sub visibleBottom visibleTop))"

definition visibility :: "window \<Rightarrow> rect \<Rightarrow> jsnum" where
  "visibility w r = js_div (visibleHeight w r) (Num (rect_height r))"

text \<open>
  The \<open>for (const sectionId of sections)\<close> loop, with the two variables it updates,
  \<open>currentSection\<close> and \<open>maxVisibility\<close>, as the accumulator.
\<close>

fun scan :: "window \<Rightarrow> string list \<Rightarrow> string \<times> jsnum \<Rightarrow> string \<times> jsnum" where
  "scan w [] acc = acc"
| "scan w (sectionId # rest) (currentSection, maxVisibility) =
     (case getElementById w sectionId of
        None \<Rightarrow> scan w rest (currentSection, maxVisibility)
      | Some r \<Rightarrow>
          (if js_gt (visibility w r) maxVisibility
           then scan w rest (sectionId, visibility w r)
           else scan w rest (currentSection, maxVisibility)))"

text \<open>
  \<open>handleScroll\<close> runs inside a closure: \<open>captured\<close> is the \<open>activeSection\<close> that
  the closure saw when its effect ran, \<open>state\<close> the value React holds when the handler
  runs. \<open>setActiveSection(currentSection)\<close> is called only when \<open>currentSection\<close>
  differs from the captured value; the result is the value of the state afterwards.
\<close>

definition handleScroll :: "window \<Rightarrow> string \<Rightarrow> string \<Rightarrow> string" where
  "handleScroll w captured state =
     (let currentSection = fst (scan w sections (''hero'', Num 0))
      in if currentSection \<noteq> captured then currentSection else state)"

text \<open>
  The layout of the repository's own test of the scroll spy: six sections of 1024 pixels
  stacked without gaps, each rectangle reported relative to the scroll offset, in a
  viewport 1024 pixels high.
\<close>

definition stacked :: "int \<Rightarrow> window" where
  "stacked y =
     \<lparr> scrollY = of_int y, innerHeight = 1024,
       getElementById = (\<lambda>s. map_option (\<lambda>p. \<lparr> rect_top = of_int (p - y), rect_height = 1024 \<rparr>)
          (map_of [(''hero'', 0), (''experience'', 1024), (''projects'', 2048),
                   (''education'', 3072), (''skills'', 4096), (''contact'', 5120)] s)) \<rparr>"

text \<open>
  The visibility ratio of a region as the specification words it, to compare the
  handler with: the quotient the handler computes, and zero where that quotient is not
  a number (as for a region of height zero) or the region does not resolve.
\<close>

definition visibilityRatio :: "window \<Rightarrow> string \<Rightarrow> jsnum" where
  "visibilityRatio w s =
     (case getElementById w s of
        None \<Rightarrow> Num 0
      | Some r \<Rightarrow> if visibility w r = NaN then Num 0 else visibility w r)"

text \<open>No resolvable region has a visibility that compares greater than zero.\<close>

definition no_positive_visibility :: "window \<Rightarrow> bool" where
  "no_positive_visibility w =
     list_all (\<lambda>s. case getElementById w s of None \<Rightarrow> True
                    | Some r \<Rightarrow> \<not> js_gt (visibility w r) (Num 0)) sections"


text \<open>Two further snapshots: no section element in the document, and a \<open>hero\<close>
  element of height zero with nothing else in the document.\<close>

definition unresolved :: "rat \<Rightarrow> window" where
  "unresolved y = \<lparr> scrollY = y, innerHeight = 1024, getElementById = (\<lambda>s. None) \<rparr>"

definition flat_hero :: window where
  "flat_hero =
     \<lparr> scrollY = 0, innerHeight = 1024,
       getElementById = (\<lambda>s. if s = ''hero'' then Some \<lparr> rect_top = 0, rect_height = 0 \<rparr>
                               else None) \<rparr>"

text \<open>
  A snapshot with two regions of the same height whose exact overlaps with the viewport
  are equal; every number in it is a binary64 number.
\<close>

definition tie_window :: window where
  "tie_window =
     \<lparr> scrollY = 2336242306698445 / 2 ^ 43, innerHeight = 1381 / 2,
       getElementById = (\<lambda>s.
         if s = ''hero''
         then Some \<lparr> rect_top = - 7042152073579725 / 2 ^ 44, rect_height = 1821 / 2 \<rparr>
         else if s = ''experience''
         then Some \<lparr> rect_top = 3171871143808205 / 2 ^ 44, rect_height = 1821 / 2 \<rparr>
         else None) \<rparr>"

section \<open>The page: Navigation and the effect of MainLayout\<close>

record NavigationItem =
  item_id :: string
  item_label :: string
  item_href :: string

definition navigationItems :: "NavigationItem list" where
  "navigationItems =
     [\<lparr> item_id = ''hero'', item_label = ''Home'', item_href = ''#hero'' \<rparr>,
      \<lparr> item_id = ''experience'', item_label = ''Experience'', item_href = ''#experience'' \<rparr>,
      \<lparr> item_id = ''projects'', item_label = ''Projects'', item_href = ''#projects'' \<rparr>,
      \<lparr> item_id = ''education'', item_label = ''Education'', item_href = ''#education'' \<rparr>,
      \<lparr> item_id = ''skills'', item_label = ''Skills'', item_href = ''#skills'' \<rparr>,
      \<lparr> item_id = ''contact'', item_label = ''Contact'', item_href = ''#contact'' \<rparr>]"

text \<open>
  A callback handed to \<open>requestAnimationFrame\<close> by \<open>throttledHandleScroll\<close>. It
  belongs to one run of the effect: it calls that run's \<open>handleScroll\<close> (with the
  \<open>activeSection\<close> that run captured) and resets that run's \<open>ticking\<close> variable.
\<close>

record frame_callback =
  cb_instance :: nat
  cb_activeSection :: string

text \<open>
  The state of the page. \<open>activeSection\<close> and \<open>isMenuOpen\<close> are React state;
  \<open>effect_instance\<close> numbers the runs of the effect of MainLayout, \<open>captured\<close> and
  \<open>ticking\<close> are the \<open>activeSection\<close> and the flag of the run whose listener is
  installed; \<open>frames\<close> are the pending animation-frame callbacks;
  \<open>scrollIntoView_calls\<close> and \<open>recomputations\<close> log the smooth scrolls requested and
  the runs of \<open>handleScroll\<close>.
\<close>

record page =
  activeSection :: string
  isMenuOpen :: bool
  scrollIntoView_calls :: "string list"
  effect_instance :: nat
  captured :: string
  ticking :: bool
  frames :: "frame_callback list"
  recomputations :: nat

definition handleSectionChange :: "string \<Rightarrow> page \<Rightarrow> page" where
  "handleSectionChange section p = p\<lparr> activeSection := section \<rparr>"

definition handleNavClick :: "window \<Rightarrow> NavigationItem \<Rightarrow> page \<Rightarrow> page" where
  "handleNavClick w item p =
     (let p1 = handleSectionChange (item_id item) p;
          p2 = p1\<lparr> isMenuOpen := False \<rparr>
      in case getElementById w (item_id item) of
           Some element \<Rightarrow> p2\<lparr> scrollIntoView_calls := scrollIntoView_calls p2 @ [item_id item] \<rparr>
         | None \<Rightarrow> p2)"

definition throttledHandleScroll :: "page \<Rightarrow> page" where
  "throttledHandleScroll p =
     (if \<not> ticking p
      then p\<lparr> frames := frames p @
                  [\<lparr> cb_instance = effect_instance p, cb_activeSection = captured p \<rparr>],
              ticking := True \<rparr>
      else p)"

text \<open>The body of a pending frame callback: \<open>handleScroll(); ticking = false\<close>. The
  assignment reaches the installed flag only when the callback belongs to the current
  run of the effect.\<close>

definition run_frame :: "window \<Rightarrow> page \<Rightarrow> frame_callback \<Rightarrow> page" where
  "run_frame w p cb =
     (let p1 = p\<lparr> activeSection := handleScroll w (cb_activeSection cb) (activeSection p),
                  recomputations := Suc (recomputations p) \<rparr>
      in if cb_instance cb = effect_instance p1 then p1\<lparr> ticking := False \<rparr> else p1)"

text \<open>One run of the effect \<open>useEffect(..., [activeSection])\<close>: a fresh \<open>ticking\<close>,
  a listener that captures the current \<open>activeSection\<close>, and the initial check
  \<open>handleScroll()\<close>.\<close>

definition useEffect_layout :: "window \<Rightarrow> page \<Rightarrow> page" where
  "useEffect_layout w p =
     (let p1 = p\<lparr> effect_instance := Suc (effect_instance p),
                  captured := activeSection p,
                  ticking := False \<rparr>
      in p1\<lparr> activeSection := handleScroll w (captured p1) (activeSection p1),
              recomputations := Suc (recomputations p1) \<rparr>)"

text \<open>After a render React runs the effect again while its dependency
  \<open>activeSection\<close> differs from the one the last run saw.\<close>

function render_layout :: "window \<Rightarrow> page \<Rightarrow> page" where
  "render_layout w p =
     (if captured p = activeSection p then p else render_layout w (useEffect_layout w p))"
  by pat_completeness auto
termination
proof (relation "measure (\<lambda>(w, p).
          if captured p = activeSection p then 0
          else if activeSection p = fst (scan w sections (''hero'', Num 0)) then 1 else 2)")
  show "wf (measure (\<lambda>(w, p).
          if captured p = activeSection p then 0
          else if activeSection p = fst (scan w sections (''hero'', Num 0)) then (1::nat) else 2))"
    by simp
next
  fix w :: window and p :: page
  assume "captured p \<noteq> activeSection p"
  then show "((w, useEffect_layout w p), (w, p)) \<in> measure (\<lambda>(w, p).
          if captured p = activeSection p then 0
          else if activeSection p = fst (scan w sections (''hero'', Num 0)) then (1::nat) else 2)"
    by (simp add: useEffect_layout_def handleScroll_def Let_def)
qed

definition initial_page :: page where
  "initial_page =
     \<lparr> activeSection = ''hero'', isMenuOpen = False, scrollIntoView_calls = [],
       effect_instance = 0, captured = ''hero'', ticking = False, frames = [],
       recomputations = 0 \<rparr>"

definition mountLayout :: "window \<Rightarrow> page" where
  "mountLayout w = render_layout w (useEffect_layout w initial_page)"

text \<open>What happens to the page: a scroll notification, an animation frame (which runs
  the pending callbacks against the browser state of that moment), a click on a
  navigation item.\<close>

datatype page_event = Scroll | Frame window | Click NavigationItem window

primrec page_step :: "page_event \<Rightarrow> page \<Rightarrow> page" where
  "page_step Scroll p = throttledHandleScroll p"
| "page_step (Frame w) p = render_layout w (foldl (run_frame w) (p\<lparr> frames := [] \<rparr>) (frames p))"
| "page_step (Click item w) p = render_layout w (handleNavClick w item p)"

primrec page_run :: "page_event list \<Rightarrow> page \<Rightarrow> page" where
  "page_run [] p = p"
| "page_run (e # es) p = page_run es (page_step e p)"

primrec is_click :: "page_event \<Rightarrow> bool" where
  "is_click Scroll = False"
| "is_click (Frame w) = False"
| "is_click (Click item w) = True"

definition scroll_burst :: "page_event list \<Rightarrow> bool" where
  "scroll_burst es = list_all (\<lambda>e. \<not> is_click e) es"

text \<open>The identifier one run of the loop arrives at.\<close>

definition resolve :: "window \<Rightarrow> string" where
  "resolve w = fst (scan w sections (''hero'', Num 0))"

text \<open>The state the page is in between events while only scroll notifications and
  frames arrive: the listener's closure is in step with the state, and a frame callback
  is pending exactly when \<open>ticking\<close> is set, the one of the current run of the effect.\<close>

definition idle_or_one_frame :: "page \<Rightarrow> bool" where
  "idle_or_one_frame p =
     (captured p = activeSection p \<and>
      (if ticking p
       then frames p = [\<lparr> cb_instance = effect_instance p, cb_activeSection = captured p \<rparr>]
       else frames p = []))"

section \<open>The hook useIntersectionObserver\<close>

text \<open>
  A threshold is a number or an array of numbers. React compares the dependencies of
  an effect with \<open>Object.is\<close>, so an array carries its object identity: two arrays of
  the same content and different identities are different dependencies.
\<close>

datatype threshold_value = Single rat | Multiple nat "rat list"

record UseIntersectionObserverOptions =
  opt_threshold :: "threshold_value option"
  opt_rootMargin :: "string option"
  opt_triggerOnce :: "bool option"

text \<open>The defaults of the destructuring at the head of the hook.\<close>

definition threshold :: "UseIntersectionObserverOptions \<Rightarrow> threshold_value" where
  "threshold options = (case opt_threshold options of None \<Rightarrow> Single (1 / 10) | Some t \<Rightarrow> t)"

definition rootMargin :: "UseIntersectionObserverOptions \<Rightarrow> string" where
  "rootMargin options = (case opt_rootMargin options of None \<Rightarrow> ''0px'' | Some m \<Rightarrow> m)"

definition triggerOnce :: "UseIntersectionObserverOptions \<Rightarrow> bool" where
  "triggerOnce options = (case opt_triggerOnce options of None \<Rightarrow> True | Some b \<Rightarrow> b)"

datatype element = Element nat

datatype js_error = ReferenceError

text \<open>
  What the effect reads from its surroundings when it runs: \<open>elementRef.current\<close>,
  \<open>window.matchMedia('(prefers-reduced-motion: reduce)').matches\<close>, and whether the
  global \<open>IntersectionObserver\<close> exists (evaluating \<open>new IntersectionObserver\<close>
  without it throws a \<open>ReferenceError\<close>).
\<close>

record host =
  elementRef_current :: "element option"
  prefersReducedMotion :: bool
  hasIntersectionObserver :: bool

text \<open>An observer with the values its callback closed over and the element it
  observes.\<close>

record observer_closure =
  obs_element :: element
  obs_hasTriggered :: bool
  obs_triggerOnce :: bool
  obs_threshold :: threshold_value
  obs_rootMargin :: string

type_synonym deps = "threshold_value \<times> string \<times> bool \<times> bool"

text \<open>
  The state of one use of the hook: the two \<open>useState\<close> cells, the observer that is
  subscribed (if any), the dependency array of the last run of the effect, and the
  number of observers constructed so far.
\<close>

record hook =
  isIntersecting :: bool
  hasTriggered :: bool
  observer :: "observer_closure option"
  last_deps :: "deps option"
  created :: nat

definition initial_hook :: hook where
  "initial_hook =
     \<lparr> isIntersecting = False, hasTriggered = False, observer = None, last_deps = None,
       created = 0 \<rparr>"

definition deps_of :: "UseIntersectionObserverOptions \<Rightarrow> hook \<Rightarrow> deps" where
  "deps_of options h = (threshold options, rootMargin options, triggerOnce options, hasTriggered h)"

text \<open>The \<open>isIntersecting\<close> field of the object the hook returns.\<close>

definition returned_isIntersecting :: "UseIntersectionObserverOptions \<Rightarrow> hook \<Rightarrow> bool" where
  "returned_isIntersecting options h =
     (if triggerOnce options then (hasTriggered h \<or> isIntersecting h) else isIntersecting h)"

text \<open>The callback given to the observer, applied to \<open>entry.isIntersecting\<close>.\<close>

definition callback :: "observer_closure \<Rightarrow> bool \<Rightarrow> hook \<Rightarrow> hook" where
  "callback ob isCurrentlyIntersecting h =
     (if isCurrentlyIntersecting \<and> (\<not> obs_hasTriggered ob \<or> \<not> obs_triggerOnce ob)
      then (let h1 = h\<lparr> isIntersecting := True \<rparr>
            in if obs_triggerOnce ob then h1\<lparr> hasTriggered := True \<rparr> else h1)
      else if \<not> obs_triggerOnce ob then h\<lparr> isIntersecting := isCurrentlyIntersecting \<rparr>
      else h)"

text \<open>The body of the effect. It returns a cleanup only on the path that observes.\<close>

definition useEffect_body ::
  "host \<Rightarrow> UseIntersectionObserverOptions \<Rightarrow> hook \<Rightarrow> js_error + hook" where
  "useEffect_body env options h =
     (case elementRef_current env of
        None \<Rightarrow> Inr h
      | Some el \<Rightarrow>
          if prefersReducedMotion env
          then Inr (h\<lparr> isIntersecting := True, hasTriggered := True \<rparr>)
          else if \<not> hasIntersectionObserver env then Inl ReferenceError
          else Inr (h\<lparr> observer := Some \<lparr> obs_element = el,
                                           obs_hasTriggered = hasTriggered h,
                                           obs_triggerOnce = triggerOnce options,
                                           obs_threshold = threshold options,
                                           obs_rootMargin = rootMargin options \<rparr>,
                        created := Suc (created h) \<rparr>))"

text \<open>
  After a render, React runs the effect when \<open>[threshold, rootMargin, triggerOnce,
  hasTriggered]\<close> differs from the array of the last run (always at mount), after the
  cleanup of the last run (\<open>observer.unobserve(element)\<close>); a state change made by
  the effect renders again.
\<close>

function commit :: "host \<Rightarrow> UseIntersectionObserverOptions \<Rightarrow> hook \<Rightarrow> js_error + hook" where
  "commit env options h =
     (if last_deps h = Some (deps_of options h) then Inr h
      else (case useEffect_body env options
                   (h\<lparr> observer := None, last_deps := Some (deps_of options h) \<rparr>) of
              Inl e \<Rightarrow> Inl e
            | Inr h' \<Rightarrow> commit env options h'))"
  by pat_completeness auto
termination
proof (relation "measure (\<lambda>(env, options, h).
          if last_deps h = Some (deps_of options h) then 0
          else if hasTriggered h then 1 else 2)")
  show "wf (measure (\<lambda>(env, options, h).
          if last_deps h = Some (deps_of options h) then 0
          else if hasTriggered h then (1::nat) else 2))"
    by simp
next
  fix env :: host and options :: UseIntersectionObserverOptions and h h' :: hook
  assume "last_deps h \<noteq> Some (deps_of options h)"
    and "useEffect_body env options
           (h\<lparr> observer := None, last_deps := Some (deps_of options h) \<rparr>) = Inr h'"
  then show "((env, options, h'), (env, options, h)) \<in> measure (\<lambda>(env, options, h).
          if last_deps h = Some (deps_of options h) then 0
          else if hasTriggered h then (1::nat) else 2)"
    by (auto simp: useEffect_body_def deps_of_def split: option.splits if_splits)
qed

definition mount :: "host \<Rightarrow> UseIntersectionObserverOptions \<Rightarrow> js_error + hook" where
  "mount env options = commit env options initial_hook"

text \<open>
  What happens to a mounted hook: the observer delivers a notification, or the
  component renders again; either way a render with the options and the surroundings
  of that moment follows.
\<close>

datatype notification = Notify bool | Rerender

type_synonym hook_event = "host \<times> UseIntersectionObserverOptions \<times> notification"

definition deliver :: "notification \<Rightarrow> hook \<Rightarrow> hook" where
  "deliver n h =
     (case n of
        Rerender \<Rightarrow> h
      | Notify b \<Rightarrow> (case observer h of None \<Rightarrow> h | Some ob \<Rightarrow> callback ob b h))"

definition hook_step :: "hook_event \<Rightarrow> hook \<Rightarrow> js_error + hook" where
  "hook_step ev h = (case ev of (env, options, n) \<Rightarrow> commit env options (deliver n h))"

primrec hook_run :: "hook_event list \<Rightarrow> hook \<Rightarrow> js_error + hook" where
  "hook_run [] h = Inr h"
| "hook_run (ev # evs) h =
     (case hook_step ev h of Inl e \<Rightarrow> Inl e | Inr h' \<Rightarrow> hook_run evs h')"

text \<open>The life of a hook: it mounts, then the events happen to it.\<close>

definition hook_life ::
  "host \<Rightarrow> UseIntersectionObserverOptions \<Rightarrow> hook_event list \<Rightarrow> js_error + hook" where
  "hook_life env options evs =
     (case mount env options of Inl e \<Rightarrow> Inl e | Inr h0 \<Rightarrow> hook_run evs h0)"

text \<open>The value the hook returns after a run, when the component is still alive.\<close>

definition returned_after ::
  "UseIntersectionObserverOptions \<Rightarrow> js_error + hook \<Rightarrow> js_error + bool" where
  "returned_after options res = map_sum id (returned_isIntersecting options) res"

text \<open>
  In a state of the hook reached from mounting, the values the observer's callback
  closed over are those of the dependency array of the last run of the effect.
\<close>

definition consistent :: "hook \<Rightarrow> bool" where
  "consistent h =
     (case observer h of
        None \<Rightarrow> True
      | Some ob \<Rightarrow>
          (case last_deps h of
             None \<Rightarrow> False
           | Some d \<Rightarrow> obs_triggerOnce ob = fst (snd (snd d)) \<and>
                       obs_hasTriggered ob = snd (snd (snd d))))"

text \<open>The options of the last render of a run that started with \<open>options\<close>.\<close>

definition last_options ::
  "UseIntersectionObserverOptions \<Rightarrow> hook_event list \<Rightarrow> UseIntersectionObserverOptions" where
  "last_options options evs = (if evs = [] then options else fst (snd (last evs)))"

text \<open>Conditions on a run: every render has \<open>triggerOnce\<close> true; every render
  happens where the observer is available.\<close>

definition under_triggerOnce :: "hook_event list \<Rightarrow> bool" where
  "under_triggerOnce evs = list_all (\<lambda>ev. triggerOnce (fst (snd ev))) evs"

definition observation_supported :: "hook_event list \<Rightarrow> bool" where
  "observation_supported evs = list_all (\<lambda>ev. hasIntersectionObserver (fst ev)) evs"

text \<open>Two renders pass the same \<open>threshold\<close>, \<open>rootMargin\<close> and \<open>triggerOnce\<close>.\<close>

definition same_config ::
  "UseIntersectionObserverOptions \<Rightarrow> UseIntersectionObserverOptions \<Rightarrow> bool" where
  "same_config options options' =
     (threshold options = threshold options' \<and> rootMargin options = rootMargin options' \<and>
      triggerOnce options = triggerOnce options')"

text \<open>
  A condition on a run that follows a render with \<open>options\<close>: every render that
  changes \<open>threshold\<close>, \<open>rootMargin\<close> or \<open>triggerOnce\<close> against the render before it
  happens in surroundings that satisfy \<open>P\<close>.
\<close>

primrec changes_only_where ::
  "(host \<Rightarrow> bool) \<Rightarrow> hook_event list \<Rightarrow> UseIntersectionObserverOptions \<Rightarrow> bool" where
  "changes_only_where P [] options = True"
| "changes_only_where P (ev # evs) options =
     ((same_config options (fst (snd ev)) \<or> P (fst ev)) \<and>
      changes_only_where P evs (fst (snd ev)))"

definition detached :: "host \<Rightarrow> bool" where
  "detached env = (elementRef_current env = None)"

definition detached_or_reduced :: "host \<Rightarrow> bool" where
  "detached_or_reduced env = (elementRef_current env = None \<or> prefersReducedMotion env)"

text \<open>Concrete surroundings, options and states for the examples.\<close>

definition desktop :: host where
  "desktop = \<lparr> elementRef_current = Some (Element 0), prefersReducedMotion = False,
               hasIntersectionObserver = True \<rparr>"

definition default_options :: UseIntersectionObserverOptions where
  "default_options = \<lparr> opt_threshold = None, opt_rootMargin = None, opt_triggerOnce = None \<rparr>"

definition reduced_motion :: host where
  "reduced_motion = \<lparr> elementRef_current = Some (Element 0), prefersReducedMotion = True,
               hasIntersectionObserver = True \<rparr>"

definition detached_reduced_motion :: host where
  "detached_reduced_motion = \<lparr> elementRef_current = None, prefersReducedMotion = True,
               hasIntersectionObserver = True \<rparr>"

definition legacy_browser :: host where
  "legacy_browser = \<lparr> elementRef_current = Some (Element 0), prefersReducedMotion = False,
               hasIntersectionObserver = False \<rparr>"

definition legacy_reduced_motion :: host where
  "legacy_reduced_motion = \<lparr> elementRef_current = Some (Element 0), prefersReducedMotion = True,
               hasIntersectionObserver = False \<rparr>"

definition toggling_options :: UseIntersectionObserverOptions where
  "toggling_options = \<lparr> opt_threshold = None, opt_rootMargin = None, opt_triggerOnce = Some False \<rparr>"

definition observing_state :: "bool \<Rightarrow> bool \<Rightarrow> bool \<Rightarrow> nat \<Rightarrow> hook" where
  "observing_state t ht isI n =
     \<lparr> isIntersecting = isI, hasTriggered = ht,
       observer = Some \<lparr> obs_element = Element 0, obs_hasTriggered = ht, obs_triggerOnce = t,
                         obs_threshold = Single (1 / 10), obs_rootMargin = ''0px'' \<rparr>,
       last_deps = Some (Single (1 / 10), ''0px'', t, ht), created = n \<rparr>"

definition margin_options :: UseIntersectionObserverOptions where
  "margin_options =
     \<lparr> opt_threshold = None, opt_rootMargin = Some ''-50px'', opt_triggerOnce = None \<rparr>"

section \<open>Properties of the rounding\<close>

lemma round_half_even_cases:
  "round_half_even t = \<lfloor>t\<rfloor> \<or> (round_half_even t = \<lfloor>t\<rfloor> + 1 \<and> of_int \<lfloor>t\<rfloor> < t)"
  by (auto simp: round_half_even_def Let_def)

lemma round_half_even_of_int: "round_half_even (of_int z) = z"
  by (simp add: round_half_even_def)

lemma round_half_even_le: "t \<le> of_int b \<Longrightarrow> round_half_even t \<le> b"
proof -
  assume t: "t \<le> of_int b"
  then have f: "\<lfloor>t\<rfloor> \<le> b" by (simp add: floor_le_iff)
  from round_half_even_cases [of t] show ?thesis
  proof
    assume "round_half_even t = \<lfloor>t\<rfloor>"
    with f show ?thesis by simp
  next
    assume a: "round_half_even t = \<lfloor>t\<rfloor> + 1 \<and> of_int \<lfloor>t\<rfloor> < t"
    with t have "of_int \<lfloor>t\<rfloor> < (of_int b :: rat)" by simp
    then have "\<lfloor>t\<rfloor> < b" by simp
    with a show ?thesis by simp
  qed
qed

lemma round_half_even_ge: "of_int a \<le> t \<Longrightarrow> a \<le> round_half_even t"
proof -
  assume "of_int a \<le> t"
  then have "a \<le> \<lfloor>t\<rfloor>" by (simp add: le_floor_iff)
  with round_half_even_cases [of t] show ?thesis by auto
qed

lemma ilog2_bounds:
  assumes "0 < x"
  shows "2 powi (ilog2 x) \<le> x \<and> x < 2 powi (ilog2 x + 1)"
proof -
  obtain n d where q: "quotient_of x = (n, d)" by (cases "quotient_of x")
  then have d: "0 < d" and x: "x = of_int n / of_int d"
    by (simp_all add: quotient_of_denom_pos quotient_of_div)
  with assms have n: "0 < n" by (simp add: zero_less_divide_iff)
  let ?bn = "bitlen n" and ?bd = "bitlen d"
  let ?k = "?bn - ?bd"
  from bitlen_bounds [OF n] have bn: "2 ^ nat (?bn - 1) \<le> n" "n < 2 ^ nat ?bn" by simp_all
  from bitlen_bounds [OF d] have bd: "2 ^ nat (?bd - 1) \<le> d" "d < 2 ^ nat ?bd" by simp_all
  have pn: "1 \<le> ?bn" using n by (auto simp: bitlen_alt_def)
  have pd: "1 \<le> ?bd" using d by (auto simp: bitlen_alt_def)
  have rn: "(2::rat) powi (?bn - 1) \<le> of_int n" "of_int n < (2::rat) powi ?bn"
  proof -
    have "(2::rat) powi (?bn - 1) = of_int (2 ^ nat (?bn - 1))"
      using pn by (simp add: power_int_def)
    also have "\<dots> \<le> of_int n" using bn(1) by (simp only: of_int_le_iff)
    finally show "(2::rat) powi (?bn - 1) \<le> of_int n" .
    have "(of_int n :: rat) < of_int (2 ^ nat ?bn)" using bn(2) by (simp only: of_int_less_iff)
    also have "\<dots> = (2::rat) powi ?bn" using pn by (simp add: power_int_def)
    finally show "of_int n < (2::rat) powi ?bn" .
  qed
  have rd: "(2::rat) powi (?bd - 1) \<le> of_int d" "of_int d < (2::rat) powi ?bd"
  proof -
    have "(2::rat) powi (?bd - 1) = of_int (2 ^ nat (?bd - 1))"
      using pd by (simp add: power_int_def)
    also have "\<dots> \<le> of_int d" using bd(1) by (simp only: of_int_le_iff)
    finally show "(2::rat) powi (?bd - 1) \<le> of_int d" .
    have "(of_int d :: rat) < of_int (2 ^ nat ?bd)" using bd(2) by (simp only: of_int_less_iff)
    also have "\<dots> = (2::rat) powi ?bd" using pd by (simp add: power_int_def)
    finally show "of_int d < (2::rat) powi ?bd" .
  qed
  have lo: "(2::rat) powi (?k - 1) < x"
  proof -
    have "(2::rat) powi (?k - 1) = 2 powi ((?bn - 1) - ?bd)" by (simp add: algebra_simps)
    also have "\<dots> = 2 powi (?bn - 1) / 2 powi ?bd" by (rule power_int_diff) simp
    also have "\<dots> < of_int n / of_int d"
      using rn(1) rd(2) d by (intro frac_less2) simp_all
    finally show ?thesis by (simp add: x)
  qed
  have hi: "x < (2::rat) powi (?k + 1)"
  proof -
    have "x = of_int n / of_int d" by (rule x)
    also have "\<dots> < 2 powi ?bn / 2 powi (?bd - 1)"
      using rn(2) rd(1) n by (intro frac_less) simp_all
    also have "\<dots> = 2 powi (?bn - (?bd - 1))" by (rule power_int_diff [symmetric]) simp
    also have "\<dots> = 2 powi (?k + 1)" by (simp add: algebra_simps)
    finally show ?thesis .
  qed
  show ?thesis
  proof (cases "2 powi ?k \<le> x")
    case True
    then have "ilog2 x = ?k" by (simp add: ilog2_def q Let_def)
    with True hi show ?thesis by simp
  next
    case False
    then have "ilog2 x = ?k - 1" by (simp add: ilog2_def q Let_def)
    with False lo show ?thesis by simp
  qed
qed

lemma pow2_pos: "0 < (2::rat) powi k"
  by simp

lemma ilog2_less:
  assumes "0 < x" and "x < 2 powi b"
  shows "ilog2 x < b"
proof (rule ccontr)
  assume "\<not> ilog2 x < b"
  then have "b \<le> ilog2 x" by simp
  then have "(2::rat) powi b \<le> 2 powi (ilog2 x)" by (intro power_int_increasing) simp_all
  with ilog2_bounds [OF assms(1)] assms(2) show False by simp
qed

text \<open>binary64 never yields NaN, and keeps the sign.\<close>

lemma binary64_sign:
  "binary64 x \<noteq> NaN \<and>
   (binary64 x = PosInf \<longrightarrow> 0 < x) \<and> (binary64 x = NegInf \<longrightarrow> x < 0) \<and>
   (\<forall>y. binary64 x = Num y \<longrightarrow> (0 \<le> x \<longrightarrow> 0 \<le> y) \<and> (x \<le> 0 \<longrightarrow> y \<le> 0))"
proof (cases "x = 0")
  case True
  then show ?thesis by (simp add: binary64_def)
next
  case False
  define q where "q = max (ilog2 \<bar>x\<bar> - 52) (- 1074)"
  define m where "m = round_half_even (x / 2 powi q)"
  have p: "0 < (2::rat) powi q" by simp
  have b: "binary64 x = (if overflow_bound \<le> \<bar>of_int m * 2 powi q\<bar>
                         then (if 0 < x then PosInf else NegInf) else Num (of_int m * 2 powi q))"
    using False by (simp add: binary64_def Let_def q_def m_def)
  have pos: "0 \<le> m" if "0 \<le> x"
  proof -
    from that p have "of_int 0 \<le> x / 2 powi q" by simp
    then show ?thesis unfolding m_def by (rule round_half_even_ge)
  qed
  have neg: "m \<le> 0" if "x \<le> 0"
  proof -
    from that p have "x / 2 powi q \<le> of_int 0" by (simp add: divide_le_0_iff)
    then show ?thesis unfolding m_def by (rule round_half_even_le)
  qed
  have "0 \<le> of_int m * (2::rat) powi q" if "0 \<le> x"
    using pos [OF that] p by simp
  moreover have "of_int m * (2::rat) powi q \<le> 0" if "x \<le> 0"
    using neg [OF that] p by (simp add: mult_le_0_iff)
  ultimately show ?thesis using False by (auto simp: b)
qed

lemma binary64_exact:
  assumes x: "x = of_int m * 2 powi e" and m: "\<bar>m\<bar> < 2 ^ 53" and e: "- 1074 \<le> e"
    and r: "\<bar>x\<bar> < overflow_bound"
  shows "binary64 x = Num x"
proof (cases "x = 0")
  case True
  then show ?thesis by (simp add: binary64_def)
next
  case False
  define q where "q = max (ilog2 \<bar>x\<bar> - 52) (- 1074)"
  have ax: "0 < \<bar>x\<bar>" using False by simp
  have "\<bar>x\<bar> = of_int \<bar>m\<bar> * 2 powi e" by (simp add: x abs_mult)
  also have "\<dots> < of_int (2 ^ 53) * 2 powi e"
    using m by (intro mult_strict_right_mono) (simp_all only: of_int_less_iff zero_less_power_int zero_less_numeral)
  also have "\<dots> = 2 powi (e + 53)" by (simp add: power_int_add)
  finally have "ilog2 \<bar>x\<bar> < e + 53" by (rule ilog2_less [OF ax])
  with e have qe: "q \<le> e" by (simp add: q_def)
  have "x / 2 powi q = of_int m * 2 powi (e - q)"
    by (simp add: x power_int_diff)
  also have "\<dots> = of_int (m * 2 ^ nat (e - q))"
    using qe by (simp add: power_int_def)
  finally have rq: "round_half_even (x / 2 powi q) = m * 2 ^ nat (e - q)"
    by (simp only: round_half_even_of_int)
  have pw: "(2::rat) powi (e - q) * 2 powi q = 2 powi e"
    using power_int_add [of "2::rat" "e - q" q] by simp
  have "of_int (round_half_even (x / 2 powi q)) * 2 powi q =
          of_int (m * 2 ^ nat (e - q)) * (2::rat) powi q"
    by (simp only: rq)
  also have "\<dots> = of_int m * (2 powi (e - q) * 2 powi q)"
    using qe by (simp add: power_int_def)
  also have "\<dots> = x" by (simp only: pw x)
  finally have y: "of_int (round_half_even (x / 2 powi q)) * 2 powi q = x" .
  show ?thesis
    using False r by (simp add: binary64_def Let_def q_def [symmetric] y)
qed

lemma binary64_idem:
  assumes "binary64 x = Num y"
  shows "binary64 y = Num y"
proof (cases "x = 0")
  case True
  with assms show ?thesis by (simp add: binary64_def)
next
  case False
  define q where "q = max (ilog2 \<bar>x\<bar> - 52) (- 1074)"
  define m where "m = round_half_even (x / 2 powi q)"
  have ax: "0 < \<bar>x\<bar>" using False by simp
  have p: "0 < (2::rat) powi q" by simp
  from assms False have y: "y = of_int m * 2 powi q" and r: "\<bar>y\<bar> < overflow_bound"
    by (simp_all add: binary64_def Let_def q_def m_def split: if_splits)
  have q: "- 1074 \<le> q" by (simp add: q_def)
  have "ilog2 \<bar>x\<bar> + 1 \<le> q + 53" by (simp add: q_def)
  then have "(2::rat) powi (ilog2 \<bar>x\<bar> + 1) \<le> 2 powi (q + 53)"
    by (intro power_int_increasing) simp_all
  with ilog2_bounds [OF ax] have "\<bar>x\<bar> < 2 powi (q + 53)" by simp
  also have "\<dots> = 2 ^ 53 * 2 powi q" by (simp add: power_int_add)
  finally have "\<bar>x\<bar> / 2 powi q < 2 ^ 53" using p by (simp add: divide_less_eq)
  then have ab: "\<bar>x / 2 powi q\<bar> < 2 ^ 53" using p by (simp add: abs_divide)
  have "x / 2 powi q \<le> 2 ^ 53" using ab by linarith
  then have "x / 2 powi q \<le> of_int (2 ^ 53)" by simp
  then have up: "m \<le> 2 ^ 53" unfolding m_def by (rule round_half_even_le)
  have "- (2 ^ 53) \<le> x / 2 powi q" using ab by linarith
  then have "of_int (- (2 ^ 53)) \<le> x / 2 powi q" by simp
  then have lo: "- (2 ^ 53) \<le> m" unfolding m_def by (rule round_half_even_ge)
  consider "\<bar>m\<bar> < 2 ^ 53" | "m = 2 ^ 53" | "m = - (2 ^ 53)"
    using up lo by linarith
  then show ?thesis
  proof cases
    case 1
    from binary64_exact [OF y 1 q r] show ?thesis .
  next
    case 2
    have "y = of_int (2 ^ 52) * 2 powi (q + 1)"
      by (simp add: y 2 power_int_add)
    from binary64_exact [OF this _ _ r] q show ?thesis by simp
  next
    case 3
    have "y = of_int (- (2 ^ 52)) * 2 powi (q + 1)"
      by (simp add: y 3 power_int_add)
    from binary64_exact [OF this _ _ r] q show ?thesis by simp
  qed
qed

text \<open>A rounding checked from its exponent and its significand.\<close>

lemma round_half_even_cert:
  assumes "2 * \<bar>t - of_int m\<bar> < 1 \<or> (2 * \<bar>t - of_int m\<bar> = 1 \<and> even m)"
  shows "round_half_even t = m"
proof -
  consider (below) "of_int m \<le> t" "t - of_int m < 1 / 2"
    | (above) "t < of_int m" "of_int m - t < 1 / 2"
    | (tie_up) "t = of_int m + 1 / 2" "even m"
    | (tie_down) "t = of_int m - 1 / 2" "even m"
    using assms by (auto simp: abs_if field_simps split: if_splits)
  then show ?thesis
  proof cases
    case below
    then have "\<lfloor>t\<rfloor> = m" by (intro floor_unique) simp_all
    with below show ?thesis by (simp add: round_half_even_def)
  next
    case above
    then have "\<lfloor>t\<rfloor> = m - 1" by (intro floor_unique) simp_all
    with above show ?thesis by (simp add: round_half_even_def)
  next
    case tie_up
    then have "\<lfloor>t\<rfloor> = m" by (intro floor_unique) simp_all
    with tie_up show ?thesis by (simp add: round_half_even_def)
  next
    case tie_down
    then have "\<lfloor>t\<rfloor> = m - 1" by (intro floor_unique) simp_all
    with tie_down show ?thesis by (simp add: round_half_even_def)
  qed
qed

lemma ilog2_unique:
  assumes "0 < x" and "2 powi E \<le> x" and "x < 2 powi (E + 1)"
  shows "ilog2 x = E"
proof -
  from ilog2_bounds [OF assms(1)] have b: "2 powi (ilog2 x) \<le> x" "x < 2 powi (ilog2 x + 1)"
    by simp_all
  have "ilog2 x < E + 1" using assms(1,3) by (rule ilog2_less)
  moreover have "E < ilog2 x + 1"
  proof (rule ccontr)
    assume "\<not> E < ilog2 x + 1"
    then have "ilog2 x + 1 \<le> E" by simp
    then have "(2::rat) powi (ilog2 x + 1) \<le> 2 powi E" by (intro power_int_increasing) simp_all
    with b(2) assms(2) show False by simp
  qed
  ultimately show ?thesis by simp
qed

lemma binary64_cert:
  assumes "x \<noteq> 0" and "2 powi E \<le> \<bar>x\<bar>" and "\<bar>x\<bar> < 2 powi (E + 1)"
    and "q = max (E - 52) (- 1074)"
    and "2 * \<bar>x / 2 powi q - of_int m\<bar> < 1 \<or> (2 * \<bar>x / 2 powi q - of_int m\<bar> = 1 \<and> even m)"
    and "\<bar>of_int m * 2 powi q\<bar> < overflow_bound"
  shows "binary64 x = Num (of_int m * 2 powi q)"
proof -
  have "ilog2 \<bar>x\<bar> = E" using assms(1,2,3) by (intro ilog2_unique) simp_all
  moreover have "round_half_even (x / 2 powi q) = m" using assms(5) by (rule round_half_even_cert)
  ultimately show ?thesis
    using assms(1,4,6) by (simp add: binary64_def Let_def)
qed

text \<open>Numbers that binary64 represents are not changed by rounding.\<close>

lemma binary64_of_int: "\<bar>m\<bar> < 2 ^ 53 \<Longrightarrow> binary64 (of_int m) = Num (of_int m)"
proof -
  assume m: "\<bar>m\<bar> < 2 ^ 53"
  have x: "(of_int m :: rat) = of_int m * 2 powi 0" by simp
  have "\<bar>of_int m :: rat\<bar> = of_int \<bar>m\<bar>" by simp
  also have "\<dots> < of_int (2 ^ 53)" using m by (simp only: of_int_less_iff)
  also have "\<dots> < overflow_bound" by (simp add: overflow_bound_def)
  finally show ?thesis by (intro binary64_exact [OF x m]) simp_all
qed

lemma binary64_numeral:
  "numeral n < (2::int) ^ 53 \<Longrightarrow> binary64 (numeral n) = Num (numeral n)"
  using binary64_of_int [of "numeral n"] by simp

lemma binary64_neg_numeral:
  "numeral n < (2::int) ^ 53 \<Longrightarrow> binary64 (- numeral n) = Num (- numeral n)"
  using binary64_of_int [of "- numeral n"] by simp

lemma binary64_zero: "binary64 0 = Num 0"
  by (simp add: binary64_def)

lemma binary64_one: "binary64 1 = Num 1"
  using binary64_of_int [of 1] by simp

lemma binary64_dyadic:
  assumes "\<bar>m\<bar> < 2 ^ 53" and "k \<le> 1074"
  shows "binary64 (of_int m / 2 ^ k) = Num (of_int m / 2 ^ k)"
proof -
  have x: "(of_int m / 2 ^ k :: rat) = of_int m * 2 powi (- int k)"
    by (simp add: power_int_minus field_simps)
  have "(1::rat) \<le> 2 ^ k" by simp
  then have "\<bar>of_int m :: rat\<bar> * 1 \<le> \<bar>of_int m\<bar> * 2 ^ k"
    by (intro mult_left_mono) simp_all
  then have "\<bar>of_int m / 2 ^ k :: rat\<bar> \<le> \<bar>of_int m\<bar>"
    by (simp add: abs_divide divide_le_eq)
  also have "\<dots> = of_int \<bar>m\<bar>" by simp
  also have "\<dots> < of_int (2 ^ 53)" using assms(1) by (simp only: of_int_less_iff)
  also have "\<dots> < overflow_bound" by (simp add: overflow_bound_def)
  finally show ?thesis using assms(2) by (intro binary64_exact [OF x assms(1)]) simp_all
qed

lemma binary64_53_64: "binary64 (53 / 64) = Num (53 / 64)"
  using binary64_dyadic [of 53 6] by simp

lemma binary64_11_64: "binary64 (11 / 64) = Num (11 / 64)"
  using binary64_dyadic [of 11 6] by simp

lemmas js_eval =
  binary64_numeral binary64_neg_numeral binary64_zero binary64_one binary64_53_64 binary64_11_64
  js_sub_def js_max_def js_min_def

section \<open>Properties of the scroll spy\<close>

lemma js_gt_irrefl: "\<not> js_gt a a"
  by (cases a) simp_all

lemma js_gt_trans: "js_gt a b \<Longrightarrow> js_gt b c \<Longrightarrow> js_gt a c"
  by (cases a; cases b; cases c) simp_all

lemma scan_cases:
  "scan w ids (c, m) = (c', m') \<Longrightarrow>
     (c' = c \<and> m' = m \<and>
        (\<forall>s\<in>set ids. \<forall>r. getElementById w s = Some r \<longrightarrow> \<not> js_gt (visibility w r) m)) \<or>
     (js_gt m' m \<and> c' \<in> set ids \<and> (\<exists>r. getElementById w c' = Some r \<and> visibility w r = m'))"
proof (induction ids arbitrary: c m)
  case Nil
  then show ?case by simp
next
  case (Cons s rest)
  show ?case
  proof (cases "getElementById w s")
    case None
    with Cons.prems have "scan w rest (c, m) = (c', m')" by simp
    from Cons.IH [OF this] None show ?thesis by auto
  next
    case (Some r)
    show ?thesis
    proof (cases "js_gt (visibility w r) m")
      case True
      with Some Cons.prems have "scan w rest (s, visibility w r) = (c', m')" by simp
      from Cons.IH [OF this] True Some show ?thesis
        by (auto intro: js_gt_trans)
    next
      case False
      with Some Cons.prems have "scan w rest (c, m) = (c', m')" by simp
      from Cons.IH [OF this] False Some show ?thesis by auto
    qed
  qed
qed



lemma nonneg_above: "js_gt a b \<Longrightarrow> nonneg b \<Longrightarrow> nonneg a"
  by (cases a; cases b) simp_all















lemma handleScroll_synced:
  "handleScroll w a a = fst (scan w sections (''hero'', Num 0))"
  by (simp add: handleScroll_def Let_def)


lemma no_positive_visibility_iff:
  "no_positive_visibility w \<longleftrightarrow>
     (\<forall>s\<in>set sections. \<forall>r. getElementById w s = Some r \<longrightarrow> \<not> js_gt (visibility w r) (Num 0))"
  by (auto simp: no_positive_visibility_def list_all_iff split: option.splits)



lemma visibilityRatio_stacked_1200:
  "visibilityRatio (stacked 1200) ''hero'' = Num 0"
  "visibilityRatio (stacked 1200) ''experience'' = Num (53 / 64)"
  "visibilityRatio (stacked 1200) ''projects'' = Num (11 / 64)"
  by (simp_all add: visibilityRatio_def stacked_def visibility_def visibleHeight_def Let_def js_eval)



text \<open>
  The rounding decides. In \<open>tie_window\<close> the two regions have the same height and the
  same exact overlap with the viewport, and the handler, computing in binary64, finds
  the later one strictly more visible. The roundings of the handler's operations on
  this snapshot come first, each checked from its exponent and significand.
\<close>

lemma tie_step_0: "binary64 (- (2369667460182835 / 17592186044416)) = Num (- (2369667460182835 / 17592186044416))"
  using binary64_cert [of "- (2369667460182835 / 17592186044416)" "7" "-45" "- 4739334920365670"]
  by (simp add: power_int_def overflow_bound_def power_divide)

lemma tie_step_1: "binary64 (13648017933257933 / 17592186044416) = Num (3412004483314483 / 4398046511104)"
  using binary64_cert [of "13648017933257933 / 17592186044416" "9" "-43" "6824008966628966"]
  by (simp add: power_int_def overflow_bound_def power_divide)

lemma tie_step_2: "binary64 (8409944538533069 / 8796093022208) = Num (8409944538533069 / 8796093022208)"
  using binary64_cert [of "8409944538533069 / 8796093022208" "9" "-43" "8409944538533069"]
  by (simp add: power_int_def overflow_bound_def power_divide)

lemma tie_step_3: "binary64 (4487766659930521 / 8796093022208) = Num (4487766659930521 / 8796093022208)"
  using binary64_cert [of "4487766659930521 / 8796093022208" "8" "-44" "8975533319861042"]
  by (simp add: power_int_def overflow_bound_def power_divide)

lemma tie_step_4: "binary64 (4487766659930521 / 8008842696720384) = Num (2523598605035065 / 4503599627370496)"
  using binary64_cert [of "4487766659930521 / 8008842696720384" "-1" "-53" "5047197210070130"]
  by (simp add: power_int_def overflow_bound_def power_divide)

lemma tie_step_5: "binary64 (7844355757205095 / 17592186044416) = Num (7844355757205095 / 17592186044416)"
  using binary64_cert [of "7844355757205095 / 17592186044416" "8" "-44" "7844355757205095"]
  by (simp add: power_int_def overflow_bound_def power_divide)

lemma tie_step_6: "binary64 (23862041150645863 / 17592186044416) = Num (2982755143830733 / 2199023255552)"
  using binary64_cert [of "23862041150645863 / 17592186044416" "10" "-42" "5965510287661466"]
  by (simp add: power_int_def overflow_bound_def power_divide)

lemma tie_step_7: "binary64 (8975533319861043 / 17592186044416) = Num (8975533319861043 / 17592186044416)"
  using binary64_cert [of "8975533319861043 / 17592186044416" "8" "-44" "8975533319861043"]
  by (simp add: power_int_def overflow_bound_def power_divide)

lemma tie_step_8: "binary64 (2991844439953681 / 5339228464480256) = Num (5047197210070131 / 9007199254740992)"
  using binary64_cert [of "2991844439953681 / 5339228464480256" "-1" "-53" "5047197210070131"]
  by (simp add: power_int_def overflow_bound_def power_divide)

lemmas tie_steps = tie_step_0 tie_step_1 tie_step_2 tie_step_3 tie_step_4 tie_step_5 tie_step_6 tie_step_7 tie_step_8


lemma rounding_decides_exact_tie:
  "(- 7042152073579725 / 2 ^ 44 + 1821 / 2 :: rat) =
     (2336242306698445 / 2 ^ 43 + 1381 / 2) -
     (3171871143808205 / 2 ^ 44 + 2336242306698445 / 2 ^ 43) \<and>
   handleScroll tie_window ''hero'' ''hero'' = ''experience''"
  by (simp add: handleScroll_def tie_window_def sections_def visibility_def visibleHeight_def
      Let_def js_sub_def js_max_def js_min_def tie_steps)




text \<open>A region of height zero: whatever the other numbers, the quotient is \<open>NaN\<close>.\<close>

lemma js_max_zero_nonpos: "x \<le> 0 \<Longrightarrow> js_max (Num 0) (binary64 x) = Num 0"
  using binary64_sign [of x] by (cases "binary64 x") (auto simp: js_max_def)

lemma visibility_zero_height:
  assumes "rect_height r = 0"
  shows "visibility w r = NaN"
proof -
  define A where "A = binary64 (rect_top r + scrollY w)"
  define B where "B = binary64 (scrollY w + innerHeight w)"
  have v: "visibility w r =
    js_div (js_max (Num 0) (js_sub (js_min (js_add A (Num 0)) B) (js_max A (Num (scrollY w)))))
           (Num 0)"
    by (simp add: visibility_def visibleHeight_def Let_def assms A_def B_def)
  have nB: "B \<noteq> NaN" using binary64_sign [of "scrollY w + innerHeight w"] by (simp add: B_def)
  show ?thesis
  proof (cases A)
    case NaN
    then show ?thesis using binary64_sign [of "rect_top r + scrollY w"] by (simp add: A_def)
  next
    case PosInf
    then show ?thesis using nB
      by (cases B) (simp_all add: v js_max_def js_min_def js_sub_def)
  next
    case NegInf
    then show ?thesis using nB
      by (cases B) (simp_all add: v js_max_def js_min_def js_sub_def)
  next
    case (Num a)
    then have "binary64 a = Num a" unfolding A_def by (rule binary64_idem)
    then have eb: "js_add A (Num 0) = Num a" by (simp add: Num)
    have vt: "js_max A (Num (scrollY w)) = Num (max a (scrollY w))"
      by (simp add: Num js_max_def max_def)
    have d: "js_max (Num 0) (js_sub (js_min (Num a) B) (Num (max a (scrollY w)))) = Num 0"
    proof (cases B)
      case NaN
      with nB show ?thesis by simp
    next
      case PosInf
      have "js_sub (Num a) (Num (max a (scrollY w))) = binary64 (a - max a (scrollY w))"
        by (simp add: js_sub_def)
      then show ?thesis by (simp add: PosInf js_min_def js_max_zero_nonpos)
    next
      case NegInf
      then show ?thesis by (simp add: js_min_def js_sub_def js_max_def)
    next
      case (Num b)
      have "js_sub (Num (min a b)) (Num (max a (scrollY w))) = binary64 (min a b - max a (scrollY w))"
        by (simp add: js_sub_def)
      moreover have "js_min (Num a) (Num b) = Num (min a b)"
        by (simp add: js_min_def min_def)
      ultimately show ?thesis by (simp add: Num js_max_zero_nonpos)
    qed
    show ?thesis by (simp add: v eb vt d)
  qed
qed

text \<open>
  C6, as the code has it. For a region whose measured height is zero the handler
  divides zero by zero: its visibility is \<open>NaN\<close>, which compares greater than nothing,
  so the loop never selects the region. The region is the result of a recomputation
  only when it is \<open>hero\<close>, the starting value, and no region has a positive visibility.
\<close>

theorem zero_height_region_is_nan:
  assumes "getElementById w s = Some r" and "rect_height r = 0"
  shows "visibility w r = NaN \<and> \<not> js_gt (visibility w r) m \<and>
         (handleScroll w a a = s \<longrightarrow> s = ''hero'' \<and> no_positive_visibility w)"
proof -
  have v: "visibility w r = NaN"
    using assms(2) by (rule visibility_zero_height)
  obtain c' m' where sc: "scan w sections (''hero'', Num 0) = (c', m')"
    by (cases "scan w sections (''hero'', Num 0)")
  from scan_cases [OF sc] have cases:
    "(c' = ''hero'' \<and> m' = Num 0 \<and>
        (\<forall>s\<in>set sections. \<forall>r. getElementById w s = Some r \<longrightarrow> \<not> js_gt (visibility w r) (Num 0))) \<or>
     (js_gt m' (Num 0) \<and> c' \<in> set sections \<and> (\<exists>r. getElementById w c' = Some r \<and> visibility w r = m'))" .
  have hs: "handleScroll w a a = c'" by (simp add: handleScroll_synced sc)
  have "s = ''hero'' \<and> no_positive_visibility w" if "c' = s"
    using cases
  proof
    assume "c' = ''hero'' \<and> m' = Num 0 \<and>
        (\<forall>s\<in>set sections. \<forall>r. getElementById w s = Some r \<longrightarrow> \<not> js_gt (visibility w r) (Num 0))"
    with that show ?thesis by (simp add: no_positive_visibility_iff)
  next
    assume "js_gt m' (Num 0) \<and> c' \<in> set sections \<and> (\<exists>r. getElementById w c' = Some r \<and> visibility w r = m')"
    with that assms(1) v have "js_gt NaN (Num 0)" by auto
    then show ?thesis by simp
  qed
  with v hs show ?thesis by simp
qed

theorem zero_height_region_is_nan_witness:
  "getElementById flat_hero ''hero'' = Some \<lparr> rect_top = 0, rect_height = 0 \<rparr> \<and>
   rect_height \<lparr> rect_top = 0, rect_height = 0 \<rparr> = 0 \<and>
   visibility flat_hero \<lparr> rect_top = 0, rect_height = 0 \<rparr> = NaN \<and>
   no_positive_visibility flat_hero"
proof -
  have g: "getElementById flat_hero ''hero'' = Some \<lparr> rect_top = 0, rect_height = 0 \<rparr>"
    by (simp add: flat_hero_def)
  have z: "rect_height \<lparr> rect_top = 0, rect_height = 0 \<rparr> = 0" by simp
  have h: "handleScroll flat_hero ''hero'' ''hero'' = ''hero''"
    by (simp add: handleScroll_def flat_hero_def sections_def visibility_def visibleHeight_def
        Let_def js_eval)
  from zero_height_region_is_nan [OF g z, of "Num 0" "''hero''"] h g z show ?thesis
    by simp
qed

theorem zero_height_divides_by_zero:
  "rect_height \<lparr> rect_top = 0, rect_height = 0 \<rparr> = 0 \<and>
   visibility flat_hero \<lparr> rect_top = 0, rect_height = 0 \<rparr> = js_div (Num 0) (Num 0) \<and>
   visibility flat_hero \<lparr> rect_top = 0, rect_height = 0 \<rparr> \<noteq> Num 0 \<and>
   handleScroll flat_hero ''contact'' ''contact'' = ''hero''"
  by (simp add: handleScroll_def flat_hero_def sections_def visibility_def visibleHeight_def
      Let_def js_eval)

section \<open>Properties of the hook\<close>

declare commit.simps [simp del]

lemma commit_stable:
  "last_deps h = Some (deps_of options h) \<Longrightarrow> commit env options h = Inr h"
  by (subst commit.simps) simp

lemma commit_unfold:
  "last_deps h \<noteq> Some (deps_of options h) \<Longrightarrow>
   commit env options h =
     (case useEffect_body env options
             (h\<lparr> observer := None, last_deps := Some (deps_of options h) \<rparr>) of
        Inl e \<Rightarrow> Inl e
      | Inr h' \<Rightarrow> commit env options h')"
  by (subst commit.simps) simp

lemma commit_inv:
  "consistent h \<Longrightarrow> commit env options h = Inr h' \<Longrightarrow>
     consistent h' \<and> last_deps h' = Some (deps_of options h') \<and>
     (isIntersecting h \<longrightarrow> isIntersecting h') \<and> (hasTriggered h \<longrightarrow> hasTriggered h')"
proof (induction env options h rule: commit.induct)
  case (1 env options h)
  show ?case
  proof (cases "last_deps h = Some (deps_of options h)")
    case True
    with "1.prems" show ?thesis by (simp add: commit_stable)
  next
    case False
    let ?h0 = "h\<lparr> observer := None, last_deps := Some (deps_of options h) \<rparr>"
    from False "1.prems"(2) obtain h1 where
      b: "useEffect_body env options ?h0 = Inr h1" and c: "commit env options h1 = Inr h'"
      by (auto simp: commit_unfold split: sum.splits)
    from b have c1: "consistent h1"
      and m1: "(isIntersecting h \<longrightarrow> isIntersecting h1) \<and> (hasTriggered h \<longrightarrow> hasTriggered h1)"
      by (auto simp: useEffect_body_def consistent_def deps_of_def split: option.splits if_splits)
    from "1.IH" [OF False b c1 c] m1 show ?thesis by simp
  qed
qed

lemma commit_error:
  "commit env options h = Inl e \<Longrightarrow> \<not> hasIntersectionObserver env"
proof (induction env options h rule: commit.induct)
  case (1 env options h)
  show ?case
  proof (cases "last_deps h = Some (deps_of options h)")
    case True
    with "1.prems" show ?thesis by (simp add: commit_stable)
  next
    case False
    let ?h0 = "h\<lparr> observer := None, last_deps := Some (deps_of options h) \<rparr>"
    show ?thesis
    proof (cases "useEffect_body env options ?h0")
      case (Inl e')
      then show ?thesis
        by (auto simp: useEffect_body_def split: option.splits if_splits)
    next
      case (Inr h1)
      with False "1.prems" have "commit env options h1 = Inl e"
        by (simp add: commit_unfold)
      from "1.IH" [OF False Inr this] show ?thesis .
    qed
  qed
qed

lemma deliver_keeps:
  "observer (deliver n h) = observer h \<and> last_deps (deliver n h) = last_deps h \<and>
   created (deliver n h) = created h"
  by (auto simp: deliver_def callback_def Let_def split: notification.splits option.splits)

lemma deliver_consistent: "consistent h \<Longrightarrow> consistent (deliver n h)"
  by (auto simp: consistent_def deliver_keeps split: option.splits)

lemma settled_closure:
  assumes "consistent h" and "last_deps h = Some (deps_of options h)" and "observer h = Some ob"
  shows "obs_triggerOnce ob = triggerOnce options \<and> obs_hasTriggered ob = hasTriggered h"
  using assms by (simp add: consistent_def deps_of_def)

lemma deliver_latch:
  assumes "consistent h" and "last_deps h = Some (deps_of options h)" and "triggerOnce options"
  shows "(isIntersecting h \<longrightarrow> isIntersecting (deliver n h)) \<and>
         (hasTriggered h \<longrightarrow> hasTriggered (deliver n h))"
proof (cases "observer h")
  case None
  then show ?thesis by (simp add: deliver_def split: notification.splits)
next
  case (Some ob)
  from settled_closure [OF assms(1,2) Some] assms(3) have "obs_triggerOnce ob" by simp
  with Some show ?thesis
    by (simp add: deliver_def callback_def Let_def split: notification.splits)
qed

lemma mount_inv:
  "mount env options = Inr h0 \<Longrightarrow> consistent h0 \<and> last_deps h0 = Some (deps_of options h0)"
  using commit_inv [of initial_hook env options h0]
  by (simp add: mount_def consistent_def initial_hook_def)

lemma step_inv:
  assumes "consistent h" and "hook_step (env, options, n) h = Inr h'"
  shows "consistent h' \<and> last_deps h' = Some (deps_of options h')"
  using commit_inv [OF deliver_consistent [OF assms(1)], of env options n h'] assms(2)
  by (simp add: hook_step_def)

lemma run_inv:
  "consistent h \<Longrightarrow> last_deps h = Some (deps_of options h) \<Longrightarrow> hook_run evs h = Inr h' \<Longrightarrow>
     consistent h' \<and> last_deps h' = Some (deps_of (last_options options evs) h')"
proof (induction evs arbitrary: h options)
  case Nil
  then show ?case by (simp add: last_options_def)
next
  case (Cons ev evs)
  obtain env o' n where ev: "ev = (env, o', n)" by (cases ev)
  from Cons.prems(3) obtain h1 where
    s: "hook_step ev h = Inr h1" and r: "hook_run evs h1 = Inr h'"
    by (auto split: sum.splits)
  from step_inv [OF Cons.prems(1) s [unfolded ev]]
  have "consistent h1" and "last_deps h1 = Some (deps_of o' h1)" by simp_all
  from Cons.IH [OF this r] show ?case
    by (simp add: last_options_def ev)
qed

lemma step_latch:
  assumes "consistent h" and "last_deps h = Some (deps_of options h)" and "triggerOnce options"
    and "hook_step (env, o', n) h = Inr h'"
  shows "(isIntersecting h \<longrightarrow> isIntersecting h') \<and> (hasTriggered h \<longrightarrow> hasTriggered h')"
proof -
  from assms(4) have c: "commit env o' (deliver n h) = Inr h'" by (simp add: hook_step_def)
  from commit_inv [OF deliver_consistent [OF assms(1)] c] deliver_latch [OF assms(1,2,3), of n]
  show ?thesis by blast
qed

lemma run_latch:
  "consistent h \<Longrightarrow> last_deps h = Some (deps_of options h) \<Longrightarrow> triggerOnce options \<Longrightarrow>
   under_triggerOnce evs \<Longrightarrow> hook_run evs h = Inr h' \<Longrightarrow>
     (isIntersecting h \<longrightarrow> isIntersecting h') \<and> (hasTriggered h \<longrightarrow> hasTriggered h')"
proof (induction evs arbitrary: h options)
  case Nil
  then show ?case by simp
next
  case (Cons ev evs)
  obtain env o' n where ev: "ev = (env, o', n)" by (cases ev)
  from Cons.prems(5) obtain h1 where
    s: "hook_step ev h = Inr h1" and r: "hook_run evs h1 = Inr h'"
    by (auto split: sum.splits)
  from Cons.prems(4) have t': "triggerOnce o'" and u: "under_triggerOnce evs"
    by (simp_all add: under_triggerOnce_def ev)
  from step_inv [OF Cons.prems(1) s [unfolded ev]]
  have i1: "consistent h1" "last_deps h1 = Some (deps_of o' h1)" by simp_all
  from step_latch [OF Cons.prems(1,2,3) s [unfolded ev]] Cons.IH [OF i1 t' u r]
  show ?case by blast
qed

lemma run_total:
  "observation_supported evs \<Longrightarrow> \<exists>h'. hook_run evs h = Inr h'"
proof (induction evs arbitrary: h)
  case Nil
  then show ?case by simp
next
  case (Cons ev evs)
  obtain env o' n where ev: "ev = (env, o', n)" by (cases ev)
  from Cons.prems have sup: "hasIntersectionObserver env" and rest: "observation_supported evs"
    by (simp_all add: observation_supported_def ev)
  from sup commit_error [of env o' "deliver n h"] obtain h1 where
    "commit env o' (deliver n h) = Inr h1"
    by (cases "commit env o' (deliver n h)") auto
  with Cons.IH [OF rest, of h1] show ?case
    by (simp add: hook_step_def ev)
qed

lemma returned_triggerOnce:
  "triggerOnce options \<Longrightarrow>
     returned_isIntersecting options h = (hasTriggered h \<or> isIntersecting h)"
  by (simp add: returned_isIntersecting_def)

lemmas hook_eval = observing_state_def
  mount_def commit_unfold commit_stable initial_hook_def useEffect_body_def deps_of_def
  triggerOnce_def threshold_def rootMargin_def hook_step_def deliver_def callback_def
  returned_isIntersecting_def returned_after_def default_options_def toggling_options_def
  desktop_def reduced_motion_def detached_reduced_motion_def legacy_browser_def
  legacy_reduced_motion_def under_triggerOnce_def observation_supported_def same_config_def detached_def detached_or_reduced_def
  margin_options_def hook_life_def
  Let_def


text \<open>A render that does not run the effect, or runs it where it returns early, leaves
  a hook without observer as it is.\<close>

lemma quiet_step:
  assumes "observer h = None" and "last_deps h = Some (deps_of options h)"
    and "same_config options options' \<or> elementRef_current env = None \<or>
         (prefersReducedMotion env \<and> isIntersecting h \<and> hasTriggered h)"
  shows "\<exists>h'. hook_step (env, options', n) h = Inr h' \<and> observer h' = None \<and>
              last_deps h' = Some (deps_of options' h') \<and>
              isIntersecting h' = isIntersecting h \<and> hasTriggered h' = hasTriggered h \<and>
              created h' = created h"
proof -
  have d: "deliver n h = h"
    using assms(1) by (simp add: deliver_def split: notification.splits)
  show ?thesis
  proof (cases "last_deps h = Some (deps_of options' h)")
    case True
    with assms(1) show ?thesis by (simp add: hook_step_def d commit_stable)
  next
    case False
    with assms(2) have "\<not> same_config options options'"
      by (auto simp: same_config_def deps_of_def)
    with assms(3) have e: "elementRef_current env = None \<or>
         (prefersReducedMotion env \<and> isIntersecting h \<and> hasTriggered h)" by simp
    let ?h0 = "h\<lparr> observer := None, last_deps := Some (deps_of options' h) \<rparr>"
    have b: "useEffect_body env options' ?h0 = Inr ?h0"
      using e by (cases "elementRef_current env") (auto simp: useEffect_body_def)
    have s: "last_deps ?h0 = Some (deps_of options' ?h0)" by (simp add: deps_of_def)
    have "commit env options' h = Inr ?h0"
      using False by (simp add: commit_unfold b commit_stable [OF s])
    then show ?thesis by (simp add: hook_step_def d deps_of_def)
  qed
qed

lemma quiet_run:
  assumes "observer h = None" and "last_deps h = Some (deps_of options h)"
    and "changes_only_where P evs options"
    and "\<And>env. P env \<Longrightarrow> elementRef_current env = None \<or>
            (prefersReducedMotion env \<and> isIntersecting h \<and> hasTriggered h)"
  shows "\<exists>h'. hook_run evs h = Inr h' \<and> observer h' = None \<and>
              isIntersecting h' = isIntersecting h \<and> hasTriggered h' = hasTriggered h \<and>
              created h' = created h"
  using assms
proof (induction evs arbitrary: h options)
  case Nil
  then show ?case by simp
next
  case (Cons ev evs)
  obtain env o' n where ev: "ev = (env, o', n)" by (cases ev)
  from Cons.prems(3) have c: "same_config options o' \<or> P env"
    and rest: "changes_only_where P evs o'"
    by (simp_all add: ev)
  from c Cons.prems(4) have "same_config options o' \<or> elementRef_current env = None \<or>
         (prefersReducedMotion env \<and> isIntersecting h \<and> hasTriggered h)" by blast
  from quiet_step [OF Cons.prems(1,2) this, of n] obtain h1 where
    h1: "hook_step ev h = Inr h1" "observer h1 = None" "last_deps h1 = Some (deps_of o' h1)"
        "isIntersecting h1 = isIntersecting h" "hasTriggered h1 = hasTriggered h"
        "created h1 = created h"
    unfolding ev by blast
  have "\<And>env. P env \<Longrightarrow> elementRef_current env = None \<or>
            (prefersReducedMotion env \<and> isIntersecting h1 \<and> hasTriggered h1)"
    using Cons.prems(4) h1(4,5) by simp
  from Cons.IH [OF h1(2,3) rest this] h1 show ?case by simp
qed

text \<open>
  C4. Under \<open>triggerOnce = true\<close> (at mount and in every later render), once the
  value the hook returns is true it is true after every further run of
  notifications and renders, also after notifications that report no intersection;
  and such a run does not fail where the observer is available.
\<close>

theorem trigger_once_latch:
  assumes "triggerOnce options" and "mount env options = Inr h0"
    and "under_triggerOnce (evs1 @ evs2)"
    and "hook_run evs1 h0 = Inr h1" and "returned_isIntersecting options h1"
  shows "(\<forall>h2. hook_run evs2 h1 = Inr h2 \<longrightarrow> returned_isIntersecting options h2) \<and>
         (observation_supported evs2 \<longrightarrow> (\<exists>h2. hook_run evs2 h1 = Inr h2))"
proof (intro conjI allI impI)
  fix h2 assume r2: "hook_run evs2 h1 = Inr h2"
  from assms(3) have u1: "under_triggerOnce evs1" and u2: "under_triggerOnce evs2"
    by (simp_all add: under_triggerOnce_def)
  from mount_inv [OF assms(2)] have i0: "consistent h0" "last_deps h0 = Some (deps_of options h0)"
    by simp_all
  from run_inv [OF i0 assms(4)]
  have i1: "consistent h1" "last_deps h1 = Some (deps_of (last_options options evs1) h1)"
    by simp_all
  have t1: "triggerOnce (last_options options evs1)"
    using assms(1) u1 by (auto simp: last_options_def under_triggerOnce_def list_all_iff)
  from run_latch [OF i1 t1 u2 r2] assms(5) assms(1)
  show "returned_isIntersecting options h2"
    by (auto simp: returned_triggerOnce)
next
  assume "observation_supported evs2"
  then show "\<exists>h2. hook_run evs2 h1 = Inr h2" by (rule run_total)
qed

theorem trigger_once_latch_witness:
  "triggerOnce default_options \<and>
   mount desktop default_options = Inr (observing_state True False False 1) \<and>
   under_triggerOnce ([(desktop, default_options, Notify True)] @
                      [(desktop, default_options, Notify False)]) \<and>
   hook_run [(desktop, default_options, Notify True)] (observing_state True False False 1) =
     Inr (observing_state True True True 2) \<and>
   returned_isIntersecting default_options (observing_state True True True 2) \<and>
   returned_after default_options
     (hook_run [(desktop, default_options, Notify False)] (observing_state True True True 2)) =
     Inr True"
proof -
  have a: "triggerOnce default_options" by (simp add: hook_eval)
  have b: "mount desktop default_options = Inr (observing_state True False False 1)"
    by (simp add: hook_eval)
  have c: "under_triggerOnce ([(desktop, default_options, Notify True)] @
                      [(desktop, default_options, Notify False)])"
    by (simp add: hook_eval)
  have d: "hook_run [(desktop, default_options, Notify True)] (observing_state True False False 1) =
     Inr (observing_state True True True 2)"
    by (simp add: hook_eval)
  have e: "returned_isIntersecting default_options (observing_state True True True 2)"
    by (simp add: hook_eval)
  have s: "observation_supported [(desktop, default_options, Notify False)]"
    by (simp add: hook_eval)
  from trigger_once_latch [OF a b c d e] s obtain h2 where
    "hook_run [(desktop, default_options, Notify False)] (observing_state True True True 2) = Inr h2"
    and "returned_isIntersecting default_options h2"
    by blast
  then have "returned_after default_options
     (hook_run [(desktop, default_options, Notify False)] (observing_state True True True 2)) =
     Inr True"
    by (simp add: returned_after_def)
  with a b c d e show ?thesis by simp
qed

text \<open>
  C5, as the code has it. When the element reference is attached and the
  reduced-motion preference is true as the mount effect runs, the value the hook
  returns is true at once, for every configuration, and no observer is constructed;
  both stay so through every later render and notification, as long as each render
  that changes \<open>threshold\<close>, \<open>rootMargin\<close> or \<open>triggerOnce\<close> (and so runs the effect
  again) still finds the preference true or the reference detached.
\<close>

theorem reduced_motion_bypass:
  assumes "elementRef_current env = Some el" and "prefersReducedMotion env"
    and "changes_only_where detached_or_reduced evs options"
  shows "\<exists>h0 h. mount env options = Inr h0 \<and> returned_isIntersecting options h0 \<and>
              observer h0 = None \<and> created h0 = 0 \<and>
              hook_run evs h0 = Inr h \<and> returned_isIntersecting options' h \<and>
              observer h = None \<and> created h = 0"
proof -
  let ?h0 = "initial_hook\<lparr> last_deps := Some (threshold options, rootMargin options,
                 triggerOnce options, True), isIntersecting := True, hasTriggered := True \<rparr>"
  have m: "mount env options = Inr ?h0"
    using assms(1,2)
    by (simp add: mount_def commit_unfold commit_stable initial_hook_def useEffect_body_def
        deps_of_def)
  have o: "observer ?h0 = None" and l: "last_deps ?h0 = Some (deps_of options ?h0)"
    by (simp_all add: initial_hook_def deps_of_def)
  have p: "\<And>env. detached_or_reduced env \<Longrightarrow> elementRef_current env = None \<or>
            (prefersReducedMotion env \<and> isIntersecting ?h0 \<and> hasTriggered ?h0)"
    by (auto simp: detached_or_reduced_def)
  from quiet_run [OF o l assms(3) p] obtain h where
    h: "hook_run evs ?h0 = Inr h" "observer h = None" "isIntersecting h" "hasTriggered h"
       "created h = 0"
    by (auto simp: initial_hook_def)
  have "returned_isIntersecting options ?h0 \<and> observer ?h0 = None \<and> created ?h0 = 0"
    by (simp add: returned_isIntersecting_def initial_hook_def)
  moreover have "returned_isIntersecting options' h"
    using h(3,4) by (simp add: returned_isIntersecting_def)
  ultimately show ?thesis using m h by blast
qed

theorem reduced_motion_bypass_witness:
  "elementRef_current reduced_motion = Some (Element 0) \<and>
   prefersReducedMotion reduced_motion \<and>
   changes_only_where detached_or_reduced
     [(reduced_motion, margin_options, Rerender), (desktop, margin_options, Notify False)]
     toggling_options \<and>
   returned_after toggling_options (mount reduced_motion toggling_options) = Inr True \<and>
   returned_after margin_options
     (hook_life reduced_motion toggling_options
        [(reduced_motion, margin_options, Rerender), (desktop, margin_options, Notify False)]) =
     Inr True \<and>
   map_sum id created
     (hook_life reduced_motion toggling_options
        [(reduced_motion, margin_options, Rerender), (desktop, margin_options, Notify False)]) =
     Inr 0"
proof -
  have a: "elementRef_current reduced_motion = Some (Element 0)" by (simp add: hook_eval)
  have b: "prefersReducedMotion reduced_motion" by (simp add: hook_eval)
  have c: "changes_only_where detached_or_reduced
     [(reduced_motion, margin_options, Rerender), (desktop, margin_options, Notify False)]
     toggling_options"
    by (simp add: hook_eval)
  from reduced_motion_bypass [OF a b c, of margin_options] obtain h0 h where
    "mount reduced_motion toggling_options = Inr h0"
    "returned_isIntersecting toggling_options h0"
    "hook_run [(reduced_motion, margin_options, Rerender), (desktop, margin_options, Notify False)]
       h0 = Inr h"
    "returned_isIntersecting margin_options h" "created h = 0"
    by blast
  then have "returned_after toggling_options (mount reduced_motion toggling_options) = Inr True \<and>
   returned_after margin_options
     (hook_life reduced_motion toggling_options
        [(reduced_motion, margin_options, Rerender), (desktop, margin_options, Notify False)]) =
     Inr True \<and>
   map_sum id created
     (hook_life reduced_motion toggling_options
        [(reduced_motion, margin_options, Rerender), (desktop, margin_options, Notify False)]) =
     Inr 0"
    by (simp add: returned_after_def hook_life_def)
  with a b c show ?thesis by simp
qed

theorem reduced_motion_needs_element:
  "prefersReducedMotion detached_reduced_motion \<and>
   returned_after default_options (mount detached_reduced_motion default_options) = Inr False \<and>
   prefersReducedMotion reduced_motion \<and>
   elementRef_current reduced_motion = Some (Element 0) \<and>
   map_sum id created
     (hook_life reduced_motion default_options [(desktop, margin_options, Rerender)]) = Inr 1"
  by (simp add: hook_eval)

text \<open>
  C7. Under \<open>triggerOnce = false\<close>, with an observer subscribed, the value the hook
  returns after a notification is the \<open>isIntersecting\<close> of that notification, true or
  false, and the notification does not fail. And whenever a step takes the returned
  value from true to false, \<open>triggerOnce\<close> is false in the render before or in the
  render after the step.
\<close>

theorem non_latching_tracks_intersection:
  assumes "mount env0 options0 = Inr h0" and "hook_run evs h0 = Inr h"
  shows "(\<not> triggerOnce options \<and> last_options options0 evs = options \<and> observer h \<noteq> None \<longrightarrow>
            (\<exists>h'. hook_step (env, options, Notify b) h = Inr h' \<and>
                  returned_isIntersecting options h' = b)) \<and>
         (\<forall>h'. hook_step (env, options, n) h = Inr h' \<and>
               returned_isIntersecting (last_options options0 evs) h \<and>
               \<not> returned_isIntersecting options h' \<longrightarrow>
               \<not> triggerOnce (last_options options0 evs) \<or> \<not> triggerOnce options)"
proof (intro conjI allI impI)
  from mount_inv [OF assms(1)] have i0: "consistent h0" "last_deps h0 = Some (deps_of options0 h0)"
    by simp_all
  from run_inv [OF i0 assms(2)]
  have i: "consistent h" "last_deps h = Some (deps_of (last_options options0 evs) h)"
    by simp_all
  {
    assume a: "\<not> triggerOnce options \<and> last_options options0 evs = options \<and> observer h \<noteq> None"
    then obtain ob where ob: "observer h = Some ob" by auto
    from a i have s: "last_deps h = Some (deps_of options h)" by simp
    from settled_closure [OF i(1) s ob] a have nt: "\<not> obs_triggerOnce ob" by simp
    let ?h' = "h\<lparr> isIntersecting := b \<rparr>"
    have d: "deliver (Notify b) h = ?h'"
      using ob nt by (simp add: deliver_def callback_def Let_def)
    have "last_deps ?h' = Some (deps_of options ?h')"
      using s by (simp add: deps_of_def)
    then have "hook_step (env, options, Notify b) h = Inr ?h'"
      by (simp add: hook_step_def d commit_stable)
    moreover have "returned_isIntersecting options ?h' = b"
      using a by (simp add: returned_isIntersecting_def)
    ultimately show "\<exists>h'. hook_step (env, options, Notify b) h = Inr h' \<and>
                  returned_isIntersecting options h' = b"
      by blast
  }
  {
    fix h'
    assume a: "hook_step (env, options, n) h = Inr h' \<and>
               returned_isIntersecting (last_options options0 evs) h \<and>
               \<not> returned_isIntersecting options h'"
    show "\<not> triggerOnce (last_options options0 evs) \<or> \<not> triggerOnce options"
    proof (rule ccontr)
      assume "\<not> (\<not> triggerOnce (last_options options0 evs) \<or> \<not> triggerOnce options)"
      then have t: "triggerOnce (last_options options0 evs)" "triggerOnce options" by simp_all
      from a have st: "hook_step (env, options, n) h = Inr h'" by simp
      from step_latch [OF i t(1) st] a t show False
        by (auto simp: returned_triggerOnce)
    qed
  }
qed

theorem non_latching_tracks_intersection_witness:
  "mount desktop toggling_options = Inr (observing_state False False False 1) \<and>
   hook_run [(desktop, toggling_options, Notify True)] (observing_state False False False 1) =
     Inr (observing_state False False True 1) \<and>
   \<not> triggerOnce toggling_options \<and>
   last_options toggling_options [(desktop, toggling_options, Notify True)] = toggling_options \<and>
   observer (observing_state False False True 1) \<noteq> None \<and>
   returned_isIntersecting toggling_options (observing_state False False True 1) \<and>
   returned_after toggling_options
     (hook_step (desktop, toggling_options, Notify False) (observing_state False False True 1)) =
     Inr False"
proof -
  have a: "mount desktop toggling_options = Inr (observing_state False False False 1)"
    by (simp add: hook_eval)
  have b: "hook_run [(desktop, toggling_options, Notify True)] (observing_state False False False 1) =
     Inr (observing_state False False True 1)"
    by (simp add: hook_eval)
  have c: "\<not> triggerOnce toggling_options \<and>
   last_options toggling_options [(desktop, toggling_options, Notify True)] = toggling_options \<and>
   observer (observing_state False False True 1) \<noteq> None"
    by (simp add: hook_eval last_options_def)
  have r: "returned_isIntersecting toggling_options (observing_state False False True 1)"
    by (simp add: hook_eval)
  from non_latching_tracks_intersection [OF a b, of toggling_options desktop False] c
  obtain h' where "hook_step (desktop, toggling_options, Notify False)
       (observing_state False False True 1) = Inr h'"
    and "returned_isIntersecting toggling_options h' = False"
    by blast
  then have "returned_after toggling_options
     (hook_step (desktop, toggling_options, Notify False) (observing_state False False True 1)) =
     Inr False"
    by (simp add: returned_after_def)
  with a b c r show ?thesis by simp
qed

text \<open>
  C8, as the code has it. Where the host has no \<open>IntersectionObserver\<close>, mounting the
  hook with an attached element and no reduced-motion preference throws a
  \<open>ReferenceError\<close> from the constructor; the returned value is true at once only
  under the reduced-motion preference, and stays false when no element is attached.
\<close>

theorem unsupported_observer_throws:
  assumes "\<not> hasIntersectionObserver env"
  shows "returned_after options (mount env options) =
           (case elementRef_current env of
              None \<Rightarrow> Inr False
            | Some el \<Rightarrow> if prefersReducedMotion env then Inr True else Inl ReferenceError)"
  using assms
  by (simp add: returned_after_def mount_def commit_unfold commit_stable initial_hook_def
      useEffect_body_def deps_of_def returned_isIntersecting_def split: option.splits)

theorem unsupported_observer_throws_witness:
  "\<not> hasIntersectionObserver legacy_reduced_motion \<and>
   returned_after default_options (mount legacy_reduced_motion default_options) = Inr True"
proof -
  have a: "\<not> hasIntersectionObserver legacy_reduced_motion" by (simp add: hook_eval)
  from unsupported_observer_throws [OF a, of default_options] a show ?thesis
    by (simp add: legacy_reduced_motion_def)
qed

theorem unsupported_observer_not_fail_open:
  "\<not> hasIntersectionObserver legacy_browser \<and>
   returned_after default_options (mount legacy_browser default_options) = Inl ReferenceError"
  by (simp add: hook_eval)

text \<open>
  C10, as the code has it. When the element reference is not attached as the mount
  effect runs, no observer is constructed and the value the hook returns is false,
  whether or not reduced motion is preferred; both stay so through every later render
  and notification, as long as each render that changes \<open>threshold\<close>, \<open>rootMargin\<close>
  or \<open>triggerOnce\<close> (and so runs the effect again) finds the reference still not
  attached.
\<close>

theorem detached_element_never_observed:
  assumes "elementRef_current env = None" and "changes_only_where detached evs options"
  shows "\<exists>h0 h. mount env options = Inr h0 \<and> \<not> returned_isIntersecting options h0 \<and>
              observer h0 = None \<and> created h0 = 0 \<and>
              hook_run evs h0 = Inr h \<and> \<not> returned_isIntersecting options' h \<and>
              observer h = None \<and> created h = 0"
proof -
  let ?h0 = "initial_hook\<lparr> last_deps := Some (threshold options, rootMargin options,
                 triggerOnce options, False) \<rparr>"
  have m: "mount env options = Inr ?h0"
    using assms(1)
    by (simp add: mount_def commit_unfold commit_stable initial_hook_def useEffect_body_def
        deps_of_def)
  have o: "observer ?h0 = None" and l: "last_deps ?h0 = Some (deps_of options ?h0)"
    by (simp_all add: initial_hook_def deps_of_def)
  have p: "\<And>env. detached env \<Longrightarrow> elementRef_current env = None \<or>
            (prefersReducedMotion env \<and> isIntersecting ?h0 \<and> hasTriggered ?h0)"
    by (simp add: detached_def)
  from quiet_run [OF o l assms(2) p] obtain h where
    h: "hook_run evs ?h0 = Inr h" "observer h = None" "\<not> isIntersecting h" "\<not> hasTriggered h"
       "created h = 0"
    by (auto simp: initial_hook_def)
  have "\<not> returned_isIntersecting options ?h0 \<and> observer ?h0 = None \<and> created ?h0 = 0"
    by (simp add: returned_isIntersecting_def initial_hook_def)
  moreover have "\<not> returned_isIntersecting options' h"
    using h(3,4) by (simp add: returned_isIntersecting_def)
  ultimately show ?thesis using m h by blast
qed

theorem detached_element_never_observed_witness:
  "elementRef_current detached_reduced_motion = None \<and>
   prefersReducedMotion detached_reduced_motion \<and>
   changes_only_where detached
     [(reduced_motion, default_options, Rerender), (detached_reduced_motion, margin_options, Rerender)]
     default_options \<and>
   returned_after margin_options
     (hook_life detached_reduced_motion default_options
        [(reduced_motion, default_options, Rerender),
         (detached_reduced_motion, margin_options, Rerender)]) = Inr False \<and>
   map_sum id created
     (hook_life detached_reduced_motion default_options
        [(reduced_motion, default_options, Rerender),
         (detached_reduced_motion, margin_options, Rerender)]) = Inr 0"
proof -
  have a: "elementRef_current detached_reduced_motion = None" by (simp add: hook_eval)
  have b: "changes_only_where detached
     [(reduced_motion, default_options, Rerender), (detached_reduced_motion, margin_options, Rerender)]
     default_options"
    by (simp add: hook_eval)
  from detached_element_never_observed [OF a b, of margin_options] obtain h0 h where
    "mount detached_reduced_motion default_options = Inr h0"
    "hook_run [(reduced_motion, default_options, Rerender),
               (detached_reduced_motion, margin_options, Rerender)] h0 = Inr h"
    "\<not> returned_isIntersecting margin_options h" "created h = 0"
    by blast
  then have "returned_after margin_options
     (hook_life detached_reduced_motion default_options
        [(reduced_motion, default_options, Rerender),
         (detached_reduced_motion, margin_options, Rerender)]) = Inr False \<and>
   map_sum id created
     (hook_life detached_reduced_motion default_options
        [(reduced_motion, default_options, Rerender),
         (detached_reduced_motion, margin_options, Rerender)]) = Inr 0"
    by (simp add: returned_after_def hook_life_def)
  with a b show ?thesis by (simp add: detached_reduced_motion_def)
qed

theorem detached_element_observed_later:
  "elementRef_current detached_reduced_motion = None \<and>
   returned_after margin_options
     (hook_life detached_reduced_motion default_options
        [(reduced_motion, margin_options, Rerender)]) = Inr True \<and>
   map_sum id created
     (hook_life detached_reduced_motion default_options
        [(desktop, margin_options, Rerender)]) = Inr 1"
  by (simp add: hook_eval)

section \<open>Properties of the page\<close>

declare render_layout.simps [simp del]

lemma render_layout_stable:
  "captured p = activeSection p \<Longrightarrow> render_layout w p = p"
  by (subst render_layout.simps) simp

lemma render_layout_unfold:
  "captured p \<noteq> activeSection p \<Longrightarrow> render_layout w p = render_layout w (useEffect_layout w p)"
  by (subst render_layout.simps) simp

lemma handleScroll_resolve: "handleScroll w a a = resolve w"
  by (simp add: handleScroll_def resolve_def Let_def)

lemma useEffect_layout_fields:
  "captured (useEffect_layout w p) = activeSection p \<and>
   activeSection (useEffect_layout w p) = resolve w \<and>
   ticking (useEffect_layout w p) = False \<and>
   frames (useEffect_layout w p) = frames p \<and>
   recomputations (useEffect_layout w p) = Suc (recomputations p)"
  by (simp add: useEffect_layout_def Let_def handleScroll_resolve)

lemma render_layout_changed:
  assumes "captured p \<noteq> activeSection p"
  shows "captured (render_layout w p) = resolve w \<and>
         activeSection (render_layout w p) = resolve w \<and>
         ticking (render_layout w p) = False \<and>
         frames (render_layout w p) = frames p \<and>
         recomputations p < recomputations (render_layout w p)"
proof (cases "activeSection p = resolve w")
  case True
  then have "render_layout w p = useEffect_layout w p"
    using assms useEffect_layout_fields [of w p]
    by (simp add: render_layout_unfold render_layout_stable)
  with True useEffect_layout_fields [of w p] show ?thesis by simp
next
  case False
  let ?p1 = "useEffect_layout w p"
  have "captured ?p1 \<noteq> activeSection ?p1"
    using False useEffect_layout_fields [of w p] by simp
  moreover have "captured (useEffect_layout w ?p1) = activeSection (useEffect_layout w ?p1)"
    using useEffect_layout_fields [of w ?p1] useEffect_layout_fields [of w p] by simp
  ultimately have "render_layout w p = useEffect_layout w ?p1"
    using assms by (simp add: render_layout_unfold render_layout_stable)
  with useEffect_layout_fields [of w ?p1] useEffect_layout_fields [of w p] show ?thesis
    by simp
qed

lemma mountLayout_fields:
  "captured (mountLayout w) = resolve w \<and> activeSection (mountLayout w) = resolve w \<and>
   ticking (mountLayout w) = False \<and> frames (mountLayout w) = [] \<and>
   1 \<le> recomputations (mountLayout w)"
proof (cases "resolve w = ''hero''")
  case True
  have "captured (useEffect_layout w initial_page) = activeSection (useEffect_layout w initial_page)"
    using True useEffect_layout_fields [of w initial_page] by (simp add: initial_page_def)
  then have "mountLayout w = useEffect_layout w initial_page"
    by (simp add: mountLayout_def render_layout_stable)
  with True useEffect_layout_fields [of w initial_page] show ?thesis
    by (simp add: initial_page_def)
next
  case False
  have "captured (useEffect_layout w initial_page) \<noteq> activeSection (useEffect_layout w initial_page)"
    using False useEffect_layout_fields [of w initial_page] by (simp add: initial_page_def)
  from render_layout_changed [OF this, of w] useEffect_layout_fields [of w initial_page]
  show ?thesis by (simp add: mountLayout_def initial_page_def)
qed

lemma mountLayout_inv: "idle_or_one_frame (mountLayout w)"
  using mountLayout_fields [of w] by (simp add: idle_or_one_frame_def)

lemma scroll_inv: "idle_or_one_frame p \<Longrightarrow> idle_or_one_frame (page_step Scroll p)"
  by (simp add: idle_or_one_frame_def throttledHandleScroll_def)

lemma frame_result:
  assumes "idle_or_one_frame p"
  shows "idle_or_one_frame (page_step (Frame w) p) \<and> frames (page_step (Frame w) p) = [] \<and>
         (frames p \<noteq> [] \<longrightarrow>
            activeSection (page_step (Frame w) p) = resolve w \<and>
            recomputations p < recomputations (page_step (Frame w) p))"
proof (cases "ticking p")
  case False
  with assms have "frames p = []" "captured p = activeSection p"
    by (simp_all add: idle_or_one_frame_def)
  then have "page_step (Frame w) p = p"
    by (simp add: render_layout_stable)
  with assms \<open>frames p = []\<close> show ?thesis by simp
next
  case True
  with assms have f: "frames p = [\<lparr> cb_instance = effect_instance p, cb_activeSection = captured p \<rparr>]"
    and c: "captured p = activeSection p"
    by (simp_all add: idle_or_one_frame_def)
  let ?q = "p\<lparr> frames := [], activeSection := resolve w,
               recomputations := Suc (recomputations p), ticking := False \<rparr>"
  have fold: "foldl (run_frame w) (p\<lparr> frames := [] \<rparr>) (frames p) = ?q"
    using f c by (simp add: run_frame_def Let_def handleScroll_resolve)
  show ?thesis
  proof (cases "resolve w = activeSection p")
    case True
    then have "page_step (Frame w) p = ?q"
      using c by (simp add: fold render_layout_stable)
    with True c f show ?thesis by (simp add: idle_or_one_frame_def)
  next
    case False
    then have ne: "captured ?q \<noteq> activeSection ?q" using c by simp
    have "page_step (Frame w) p = render_layout w ?q" by (simp add: fold)
    with render_layout_changed [OF ne, of w] f show ?thesis
      by (simp add: idle_or_one_frame_def)
  qed
qed

lemma burst_inv:
  "scroll_burst es \<Longrightarrow> idle_or_one_frame p \<Longrightarrow> idle_or_one_frame (page_run es p)"
proof (induction es arbitrary: p)
  case Nil
  then show ?case by simp
next
  case (Cons e es)
  from Cons.prems(1) have rest: "scroll_burst es" and nc: "\<not> is_click e"
    by (simp_all add: scroll_burst_def)
  have "idle_or_one_frame (page_step e p)"
  proof (cases e)
    case Scroll
    with Cons.prems(2) show ?thesis using scroll_inv by simp
  next
    case (Frame w)
    with Cons.prems(2) show ?thesis using frame_result [of p w] by simp
  next
    case (Click item w)
    with nc show ?thesis by simp
  qed
  from Cons.IH [OF rest this] show ?case by simp
qed

text \<open>
  In a history without navigation clicks the throttle does what it is written for: at
  most one frame callback is pending, and one is pending exactly when \<open>ticking\<close> is
  set; a notification that finds none pending schedules one, a notification that finds
  one pending changes nothing; the frame recomputes from the browser state of the
  frame and leaves none pending; mounting runs the recomputation.
\<close>

lemma click_free_history_coalesced:
  assumes "scroll_burst es"
  shows "length (frames (page_run es (mountLayout w0))) \<le> 1 \<and>
         (ticking (page_run es (mountLayout w0)) \<longleftrightarrow> frames (page_run es (mountLayout w0)) \<noteq> []) \<and>
         (frames (page_run es (mountLayout w0)) = [] \<longrightarrow>
            length (frames (page_step Scroll (page_run es (mountLayout w0)))) = 1) \<and>
         (frames (page_run es (mountLayout w0)) \<noteq> [] \<longrightarrow>
            page_step Scroll (page_run es (mountLayout w0)) = page_run es (mountLayout w0) \<and>
            frames (page_step (Frame w) (page_run es (mountLayout w0))) = [] \<and>
            activeSection (page_step (Frame w) (page_run es (mountLayout w0))) =
              handleScroll w (activeSection (page_run es (mountLayout w0)))
                             (activeSection (page_run es (mountLayout w0))) \<and>
            recomputations (page_run es (mountLayout w0)) <
              recomputations (page_step (Frame w) (page_run es (mountLayout w0)))) \<and>
         1 \<le> recomputations (mountLayout w0) \<and>
         activeSection (mountLayout w0) = handleScroll w0 ''hero'' ''hero''"
proof -
  let ?p = "page_run es (mountLayout w0)"
  have i: "idle_or_one_frame ?p"
    by (rule burst_inv [OF assms mountLayout_inv])
  have a: "length (frames ?p) \<le> 1 \<and> (ticking ?p \<longleftrightarrow> frames ?p \<noteq> [])"
    using i by (simp add: idle_or_one_frame_def split: if_splits)
  have b: "frames ?p = [] \<longrightarrow> length (frames (page_step Scroll ?p)) = 1"
    using i by (simp add: idle_or_one_frame_def throttledHandleScroll_def split: if_splits)
  have c: "frames ?p \<noteq> [] \<longrightarrow> page_step Scroll ?p = ?p"
    using i by (simp add: idle_or_one_frame_def throttledHandleScroll_def split: if_splits)
  have d: "frames ?p \<noteq> [] \<longrightarrow>
            frames (page_step (Frame w) ?p) = [] \<and>
            activeSection (page_step (Frame w) ?p) = handleScroll w (activeSection ?p) (activeSection ?p) \<and>
            recomputations ?p < recomputations (page_step (Frame w) ?p)"
    using frame_result [OF i, of w] by (simp add: handleScroll_resolve)
  have e: "1 \<le> recomputations (mountLayout w0) \<and>
           activeSection (mountLayout w0) = handleScroll w0 ''hero'' ''hero''"
    using mountLayout_fields [of w0] by (simp add: handleScroll_resolve)
  from a b c d e show ?thesis by blast
qed

text \<open>The handler of a click by itself, and the click once the render that follows it
  has run the effect again.\<close>

lemma handleNavClick_fields:
  "activeSection (handleNavClick w item p) = item_id item \<and>
   recomputations (handleNavClick w item p) = recomputations p \<and>
   frames (handleNavClick w item p) = frames p \<and>
   captured (handleNavClick w item p) = captured p \<and>
   (getElementById w (item_id item) = None \<longrightarrow>
      scrollIntoView_calls (handleNavClick w item p) = scrollIntoView_calls p) \<and>
   (getElementById w (item_id item) \<noteq> None \<longrightarrow>
      scrollIntoView_calls (handleNavClick w item p) = scrollIntoView_calls p @ [item_id item])"
  by (auto simp: handleNavClick_def handleSectionChange_def Let_def split: option.splits)

lemma click_processed:
  assumes "captured p = activeSection p"
  shows "activeSection (page_step (Click item w) p) =
           (if item_id item = activeSection p then item_id item else resolve w)"
proof (cases "item_id item = activeSection p")
  case True
  then have "captured (handleNavClick w item p) = activeSection (handleNavClick w item p)"
    using assms handleNavClick_fields [of w item p] by simp
  then show ?thesis
    using True handleNavClick_fields [of w item p] by (simp add: render_layout_stable)
next
  case False
  then have "captured (handleNavClick w item p) \<noteq> activeSection (handleNavClick w item p)"
    using assms handleNavClick_fields [of w item p] by simp
  from render_layout_changed [OF this, of w] False show ?thesis by simp
qed

lemma handleScroll_alt:
  "handleScroll w c s = (if resolve w \<noteq> c then resolve w else s)"
  by (simp add: handleScroll_def resolve_def Let_def)

lemma resolve_stacked_0: "resolve (stacked 0) = ''hero''"
  by (simp add: resolve_def stacked_def sections_def visibility_def visibleHeight_def
      Let_def js_eval)

lemma resolve_unresolved: "resolve (unresolved y) = ''hero''"
  by (simp add: resolve_def unresolved_def sections_def)

lemma contact_resolves:
  "getElementById (stacked 0) ''contact'' = Some \<lparr> rect_top = 5120, rect_height = 1024 \<rparr>"
  by (simp add: stacked_def)

lemma contact_unresolved: "getElementById (unresolved y) ''contact'' = None"
  by (simp add: unresolved_def)

lemma mount_stacked_0:
  "mountLayout (stacked 0) = initial_page\<lparr> effect_instance := 1, recomputations := 1 \<rparr>"
  by (simp add: mountLayout_def useEffect_layout_def initial_page_def render_layout_stable
      handleScroll_alt resolve_stacked_0 Let_def)

lemma mount_unresolved:
  "mountLayout (unresolved y) = initial_page\<lparr> effect_instance := 1, recomputations := 1 \<rparr>"
  by (simp add: mountLayout_def useEffect_layout_def initial_page_def render_layout_stable
      handleScroll_alt resolve_unresolved Let_def)

lemmas page_eval =
  mount_stacked_0 mount_unresolved throttledHandleScroll_def initial_page_def
  navigationItems_def handleNavClick_def handleSectionChange_def render_layout_unfold
  render_layout_stable useEffect_layout_def run_frame_def handleScroll_alt resolve_stacked_0
  resolve_unresolved contact_resolves contact_unresolved Let_def

text \<open>
  C3. The handler of a navigation click sets the current identifier to the item's at
  once, before any recomputation and whatever the item's visibility; but the effect of
  MainLayout depends on \<open>activeSection\<close>, so the render that follows the click runs it
  again, and its initial check \<open>handleScroll()\<close> replaces the identifier by the region
  the resolver selects. At scroll offset 0 of the test layout a click on \<open>contact\<close>
  leaves \<open>hero\<close> current; with no element in the document the click on \<open>contact\<close>
  requests no scroll and leaves \<open>hero\<close> current as well.
\<close>

theorem nav_click_overridden_by_initial_check:
  "activeSection (handleNavClick (stacked 0) (navigationItems ! 5) (mountLayout (stacked 0))) =
     ''contact'' \<and>
   activeSection (page_step (Click (navigationItems ! 5) (stacked 0)) (mountLayout (stacked 0))) =
     ''hero'' \<and>
   scrollIntoView_calls
     (page_step (Click (navigationItems ! 5) (stacked 0)) (mountLayout (stacked 0))) =
     [''contact''] \<and>
   activeSection
     (page_step (Click (navigationItems ! 5) (unresolved 0)) (mountLayout (unresolved 0))) =
     ''hero'' \<and>
   scrollIntoView_calls
     (page_step (Click (navigationItems ! 5) (unresolved 0)) (mountLayout (unresolved 0))) = []"
  by (simp add: page_eval)

text \<open>
  C9. The flag \<open>ticking\<close> is a variable of one run of the effect, and the cleanup of
  the effect removes the listener without cancelling a pending frame. A click that
  arrives between a scroll notification and its frame runs the effect again, with a
  new flag: the next scroll notification schedules a second callback while the first
  is still pending, and the frame then recomputes twice.
\<close>

theorem second_frame_pending_after_click:
  "length (frames (page_run [Scroll] (mountLayout (stacked 0)))) = 1 \<and>
   length (frames (page_run [Scroll, Click (navigationItems ! 5) (stacked 0), Scroll]
                     (mountLayout (stacked 0)))) = 2 \<and>
   recomputations (page_run [Scroll, Click (navigationItems ! 5) (stacked 0), Scroll]
                     (mountLayout (stacked 0))) = 3 \<and>
   recomputations (page_run [Scroll, Click (navigationItems ! 5) (stacked 0), Scroll,
                             Frame (stacked 0)]
                     (mountLayout (stacked 0))) = 5"
  by (simp add: page_eval)

end
